theory Spec2Isabelle
  imports Complex_Main "HOL-Library.Multiset"
begin

section \<open>Single-precision values\<close>

text \<open>
  The viewer computes in C++ \<open>float\<close>. A value is either finite or one of the three
  special values of IEEE 754. A finite value carries the exact real number: rounding,
  overflow to infinity and the sign of zero are not modelled, so every statement below
  about finite values is a statement about the exact arithmetic the floats approximate.
  The special values follow IEEE 754: a zero divided by zero is \<open>NaN\<close>, a non-zero value
  divided by zero is an infinity, and every comparison with \<open>NaN\<close> is false.
\<close>

datatype flt = Fin real | PInf | NInf | NaN

fun fneg :: "flt \<Rightarrow> flt" where
  "fneg (Fin a) = Fin (- a)"
| "fneg PInf = NInf"
| "fneg NInf = PInf"
| "fneg NaN = NaN"

fun fadd :: "flt \<Rightarrow> flt \<Rightarrow> flt" where
  "fadd (Fin a) (Fin b) = Fin (a + b)"
| "fadd NaN _ = NaN"
| "fadd _ NaN = NaN"
| "fadd PInf NInf = NaN"
| "fadd NInf PInf = NaN"
| "fadd PInf _ = PInf"
| "fadd _ PInf = PInf"
| "fadd NInf _ = NInf"
| "fadd _ NInf = NInf"

definition fsub :: "flt \<Rightarrow> flt \<Rightarrow> flt" where
  "fsub a b = fadd a (fneg b)"

text \<open>The sign of an infinity times, or divided by, a finite value.\<close>

definition signed_inf :: "bool \<Rightarrow> real \<Rightarrow> flt" where
  "signed_inf pos b = (if b = 0 then NaN else if (0 < b) = pos then PInf else NInf)"

fun fmul :: "flt \<Rightarrow> flt \<Rightarrow> flt" where
  "fmul (Fin a) (Fin b) = Fin (a * b)"
| "fmul NaN _ = NaN"
| "fmul _ NaN = NaN"
| "fmul PInf (Fin b) = signed_inf True b"
| "fmul NInf (Fin b) = signed_inf False b"
| "fmul (Fin a) PInf = signed_inf True a"
| "fmul (Fin a) NInf = signed_inf False a"
| "fmul PInf PInf = PInf"
| "fmul NInf NInf = PInf"
| "fmul PInf NInf = NInf"
| "fmul NInf PInf = NInf"

fun fdiv :: "flt \<Rightarrow> flt \<Rightarrow> flt" where
  "fdiv (Fin a) (Fin b) =
     (if b = 0 then (if a = 0 then NaN else if 0 < a then PInf else NInf)
      else Fin (a / b))"
| "fdiv NaN _ = NaN"
| "fdiv _ NaN = NaN"
| "fdiv (Fin a) PInf = Fin 0"
| "fdiv (Fin a) NInf = Fin 0"
| "fdiv PInf (Fin b) = (if 0 \<le> b then PInf else NInf)"
| "fdiv NInf (Fin b) = (if 0 \<le> b then NInf else PInf)"
| "fdiv PInf PInf = NaN"
| "fdiv PInf NInf = NaN"
| "fdiv NInf PInf = NaN"
| "fdiv NInf NInf = NaN"

text \<open>\<open>sqrtf\<close>, \<open>cosf\<close>, \<open>sinf\<close> and \<open>fabs\<close> of the C library.\<close>

fun sqrtf :: "flt \<Rightarrow> flt" where
  "sqrtf (Fin a) = (if a < 0 then NaN else Fin (sqrt a))"
| "sqrtf PInf = PInf"
| "sqrtf NInf = NaN"
| "sqrtf NaN = NaN"

fun cosf :: "flt \<Rightarrow> flt" where
  "cosf (Fin a) = Fin (cos a)"
| "cosf _ = NaN"

fun sinf :: "flt \<Rightarrow> flt" where
  "sinf (Fin a) = Fin (sin a)"
| "sinf _ = NaN"

fun fabs :: "flt \<Rightarrow> flt" where
  "fabs (Fin a) = Fin \<bar>a\<bar>"
| "fabs PInf = PInf"
| "fabs NInf = PInf"
| "fabs NaN = NaN"

text \<open>The comparisons \<open>a < b\<close> and \<open>a <= b\<close>.\<close>

fun fless :: "flt \<Rightarrow> flt \<Rightarrow> bool" where
  "fless (Fin a) (Fin b) = (a < b)"
| "fless NaN _ = False"
| "fless _ NaN = False"
| "fless _ NInf = False"
| "fless NInf _ = True"
| "fless PInf _ = False"
| "fless _ PInf = True"

fun fle :: "flt \<Rightarrow> flt \<Rightarrow> bool" where
  "fle (Fin a) (Fin b) = (a \<le> b)"
| "fle NaN _ = False"
| "fle _ NaN = False"
| "fle NInf _ = True"
| "fle _ PInf = True"
| "fle _ NInf = False"
| "fle PInf _ = False"

text \<open>Conversion of an \<open>int\<close> or \<open>size_t\<close> operand to \<open>float\<close>.\<close>

definition of_count :: "int \<Rightarrow> flt" where
  "of_count n = Fin (of_int n)"

text \<open>
  Undefined behaviour of the C++ program is a value of the model: reading a vector
  outside its bounds, and converting to \<open>int\<close> (or the 32-bit \<open>LONG\<close>) a \<open>float\<close> that is
  not finite or whose truncation does not fit.
\<close>

datatype ub = OutOfBounds | BadCast

definition bnd :: "ub + 'a \<Rightarrow> ('a \<Rightarrow> ub + 'b) \<Rightarrow> ub + 'b" where
  "bnd m k = (case m of Inl e \<Rightarrow> Inl e | Inr a \<Rightarrow> k a)"

definition truncation :: "real \<Rightarrow> int" where
  "truncation r = (if 0 \<le> r then \<lfloor>r\<rfloor> else \<lceil>r\<rceil>)"

fun cast_int :: "flt \<Rightarrow> ub + int" where
  "cast_int (Fin r) =
     (if - 2147483649 < r \<and> r < 2147483648 then Inr (truncation r) else Inl BadCast)"
| "cast_int _ = Inl BadCast"

definition is_fin :: "flt \<Rightarrow> bool" where
  "is_fin a = (case a of Fin _ \<Rightarrow> True | _ \<Rightarrow> False)"

definition val :: "flt \<Rightarrow> real" where
  "val a = (case a of Fin r \<Rightarrow> r | _ \<Rightarrow> 0)"

section \<open>Data model (3DShaderViewer.hpp)\<close>

text \<open>
  The fields of \<open>struct Vertex\<close> (\<open>id\<close>, \<open>x\<close>, \<open>y\<close>, \<open>z\<close>) and of \<open>struct Face\<close>
  (\<open>v1\<close>, \<open>v2\<close>, \<open>v3\<close>) carry a prefix, since the short names are the local variables
  of the functions below. Integers are unbounded: the program does no arithmetic on
  them other than \<open>v - 1\<close>, whose overflow is an index out of bounds in any case.
\<close>

record Vertex =
  v_id :: int
  v_x :: flt
  v_y :: flt
  v_z :: flt

record Face =
  f_v1 :: int
  f_v2 :: int
  f_v3 :: int

text \<open>The global variables of 3DShader.cpp that the geometry pipeline reads and writes.\<close>

record viewer =
  vertices :: "Vertex list"
  faces :: "Face list"
  transformed :: "Vertex list"
  angleX :: flt
  angleY :: flt

definition WIDTH :: int where "WIDTH = 800"
definition HEIGHT :: int where "HEIGHT = 600"

section \<open>Rotation and the transform pipeline\<close>

text \<open>The literal \<open>3.14159265f\<close> of \<open>rotateX\<close> and \<open>rotateY\<close>.\<close>

definition PI_F :: flt where
  "PI_F = Fin 3.14159265"

definition rotateX :: "Vertex \<Rightarrow> flt \<Rightarrow> Vertex" where
  "rotateX v angle =
     (let rad = fdiv (fmul angle PI_F) (Fin 180);
          c = cosf rad; s = sinf rad
      in \<lparr> v_id = v_id v,
           v_x = v_x v,
           v_y = fsub (fmul (v_y v) c) (fmul (v_z v) s),
           v_z = fadd (fmul (v_y v) s) (fmul (v_z v) c) \<rparr>)"

definition rotateY :: "Vertex \<Rightarrow> flt \<Rightarrow> Vertex" where
  "rotateY v angle =
     (let rad = fdiv (fmul angle PI_F) (Fin 180);
          c = cosf rad; s = sinf rad
      in \<lparr> v_id = v_id v,
           v_x = fadd (fmul (v_x v) c) (fmul (v_z v) s),
           v_y = v_y v,
           v_z = fadd (fmul (fneg (v_x v)) s) (fmul (v_z v) c) \<rparr>)"

text \<open>First loop of \<open>applyTransform\<close>: the running sums \<open>cx\<close>, \<open>cy\<close>, \<open>cz\<close>.\<close>

fun sum_coords :: "Vertex list \<Rightarrow> flt \<times> flt \<times> flt \<Rightarrow> flt \<times> flt \<times> flt" where
  "sum_coords [] acc = acc"
| "sum_coords (v # vs) (cx, cy, cz) =
     sum_coords vs (fadd cx (v_x v), fadd cy (v_y v), fadd cz (v_z v))"

text \<open>Second loop: the running maximum \<open>maxExtent\<close> of the distances from the centre.\<close>

fun max_dist :: "flt \<times> flt \<times> flt \<Rightarrow> Vertex list \<Rightarrow> flt \<Rightarrow> flt" where
  "max_dist c [] maxExtent = maxExtent"
| "max_dist (cx, cy, cz) (v # vs) maxExtent =
     (let dx = fsub (v_x v) cx; dy = fsub (v_y v) cy; dz = fsub (v_z v) cz;
          dist = sqrtf (fadd (fadd (fmul dx dx) (fmul dy dy)) (fmul dz dz))
      in max_dist (cx, cy, cz) vs (if fless maxExtent dist then dist else maxExtent))"

text \<open>Body of the third loop: normalise one vertex, rotate about X, then about Y.\<close>

definition transform_vertex ::
  "flt \<times> flt \<times> flt \<Rightarrow> flt \<Rightarrow> flt \<Rightarrow> flt \<Rightarrow> Vertex \<Rightarrow> Vertex" where
  "transform_vertex c maxExtent ax ay v =
     (case c of (cx, cy, cz) \<Rightarrow>
        let normed = \<lparr> v_id = v_id v,
                       v_x = fdiv (fsub (v_x v) cx) maxExtent,
                       v_y = fdiv (fsub (v_y v) cy) maxExtent,
                       v_z = fdiv (fsub (v_z v) cz) maxExtent \<rparr>;
            t = rotateX normed ax
        in rotateY t ay)"

definition centre :: "Vertex list \<Rightarrow> flt \<times> flt \<times> flt" where
  "centre vs =
     (case sum_coords vs (Fin 0, Fin 0, Fin 0) of (cx, cy, cz) \<Rightarrow>
        (fdiv cx (of_count (int (length vs))),
         fdiv cy (of_count (int (length vs))),
         fdiv cz (of_count (int (length vs)))))"

definition applyTransform :: "viewer \<Rightarrow> viewer" where
  "applyTransform st =
     (let c = centre (vertices st);
          maxExtent = max_dist c (vertices st) (Fin 0)
      in st \<lparr> transformed :=
               map (transform_vertex c maxExtent (angleX st) (angleY st)) (vertices st) \<rparr>)"


section \<open>Projection\<close>

type_synonym POINT = "int \<times> int"

definition project :: "Vertex \<Rightarrow> ub + POINT" where
  "project v =
     (let scale = fmul (of_count (min WIDTH HEIGHT)) (Fin 0.4)
      in bnd (cast_int (fadd (of_count (WIDTH div 2)) (fmul (v_x v) scale))) (\<lambda>sx.
         bnd (cast_int (fsub (of_count (HEIGHT div 2)) (fmul (v_y v) scale))) (\<lambda>sy.
         Inr (sx, sy))))"

section \<open>The rasterizer\<close>

text \<open>
  \<open>drawShadedModel\<close> draws through GDI calls on an off-screen device context. The
  model records the calls that draw, in order, each with the colour of the brush or
  pen selected at that moment: \<open>Polygon\<close> with the solid brush and a null pen,
  \<open>MoveToEx\<close> and \<open>LineTo\<close> with the solid pen of width 1, \<open>Ellipse\<close> with the solid
  brush. The macro \<open>RGB\<close> keeps the low byte of each channel.
\<close>

type_synonym COLORREF = "int \<times> int \<times> int"

definition RGB :: "int \<Rightarrow> int \<Rightarrow> int \<Rightarrow> COLORREF" where
  "RGB r g b = (r mod 256, g mod 256, b mod 256)"

datatype cmd =
    Polygon "POINT list" COLORREF
  | MoveToEx POINT
  | LineTo POINT COLORREF
  | Ellipse int int int int COLORREF

text \<open>\<open>transformed[i]\<close>: a read outside the vector is undefined behaviour.\<close>

definition vec_at :: "'a list \<Rightarrow> int \<Rightarrow> ub + 'a" where
  "vec_at xs i = (if 0 \<le> i \<and> i < int (length xs) then Inr (xs ! nat i) else Inl OutOfBounds)"

record IndexedFace =
  face :: Face
  avgZ :: flt

text \<open>First loop of \<open>drawShadedModel\<close>: every face with the mean depth of its corners.\<close>

fun index_faces :: "Vertex list \<Rightarrow> Face list \<Rightarrow> ub + IndexedFace list" where
  "index_faces t [] = Inr []"
| "index_faces t (f # fs) =
     bnd (vec_at t (f_v1 f - 1)) (\<lambda>a.
     bnd (vec_at t (f_v2 f - 1)) (\<lambda>b.
     bnd (vec_at t (f_v3 f - 1)) (\<lambda>c.
     let zAvg = fdiv (fadd (fadd (v_z a) (v_z b)) (v_z c)) (Fin 3)
     in bnd (index_faces t fs) (\<lambda>rest. Inr (\<lparr> face = f, avgZ = zAvg \<rparr> # rest)))))"

text \<open>The comparison handed to \<open>std::sort\<close>.\<close>

definition avgZ_less :: "IndexedFace \<Rightarrow> IndexedFace \<Rightarrow> bool" where
  "avgZ_less a b = fless (avgZ a) (avgZ b)"

text \<open>
  \<open>std::sort\<close> belongs to the C++ library. The standard promises a rearrangement of
  the range that is sorted with respect to the comparison: no element compares less
  than an element before it. It does not promise the order of elements that compare
  equal. The promise supposes that the comparison is a strict weak ordering, which
  \<open>avgZ_less\<close> is as long as no \<open>avgZ\<close> is \<open>NaN\<close>. The rasterizer takes the library's
  sort as a parameter \<open>srt\<close>; this is what the standard says of one call.
\<close>

definition std_sort_post :: "IndexedFace list \<Rightarrow> IndexedFace list \<Rightarrow> bool" where
  "std_sort_post xs ys =
     (mset ys = mset xs \<and> sorted_wrt (\<lambda>a b. \<not> avgZ_less b a) ys)"

text \<open>
  The cross product of the edges \<open>v2 - v1\<close> and \<open>v3 - v1\<close>, and its length (the
  local \<open>length\<close> of the source is \<open>len\<close> here).
\<close>

definition face_normal :: "Vertex \<Rightarrow> Vertex \<Rightarrow> Vertex \<Rightarrow> flt \<times> flt \<times> flt \<times> flt" where
  "face_normal v1 v2 v3 =
     (let ux = fsub (v_x v2) (v_x v1);
          uy = fsub (v_y v2) (v_y v1);
          uz = fsub (v_z v2) (v_z v1);
          vx = fsub (v_x v3) (v_x v1);
          vy = fsub (v_y v3) (v_y v1);
          vz = fsub (v_z v3) (v_z v1);
          nx = fsub (fmul uy vz) (fmul uz vy);
          ny = fsub (fmul uz vx) (fmul ux vz);
          nz = fsub (fmul ux vy) (fmul uy vx);
          len = sqrtf (fadd (fadd (fmul nx nx) (fmul ny ny)) (fmul nz nz))
      in (nx, ny, nz, len))"

definition black :: COLORREF where
  "black = RGB 0 0 0"

text \<open>
  What the second loop does with the three corners of one face once they are read:
  skip a degenerate face, otherwise shade, fill, outline, and mark the corners of a
  front-facing face in \<open>vertexVisible\<close>.
\<close>

definition shade_face ::
  "Face \<Rightarrow> Vertex \<Rightarrow> Vertex \<Rightarrow> Vertex \<Rightarrow> bool list \<Rightarrow> ub + (bool list \<times> cmd list)" where
  "shade_face f v1 v2 v3 vertexVisible =
     (case face_normal v1 v2 v3 of (nx0, ny0, nz0, len) \<Rightarrow>
        if fless len (Fin 0.000001) then Inr (vertexVisible, [])
        else
          let nx = fdiv nx0 len; ny = fdiv ny0 len; nz = fdiv nz0 len;
              intensity = fabs nz
          in bnd (cast_int (fadd (of_count 0x5F) (fmul intensity (of_count (0xFF - 0x5F))))) (\<lambda>blue.
             let color = RGB 0 0 blue
             in bnd (project v1) (\<lambda>p0.
                bnd (project v2) (\<lambda>p1.
                bnd (project v3) (\<lambda>p2.
                Inr (if fless (Fin 0) nz
                     then vertexVisible [nat (f_v1 f - 1) := True,
                                         nat (f_v2 f - 1) := True,
                                         nat (f_v3 f - 1) := True]
                     else vertexVisible,
                     [Polygon [p0, p1, p2] color,
                      MoveToEx p0, LineTo p1 black, LineTo p2 black, LineTo p0 black]))))))"

definition draw_face :: "Vertex list \<Rightarrow> Face \<Rightarrow> bool list \<Rightarrow> ub + (bool list \<times> cmd list)" where
  "draw_face t f vertexVisible =
     bnd (vec_at t (f_v1 f - 1)) (\<lambda>v1.
     bnd (vec_at t (f_v2 f - 1)) (\<lambda>v2.
     bnd (vec_at t (f_v3 f - 1)) (\<lambda>v3.
     shade_face f v1 v2 v3 vertexVisible)))"

text \<open>Second loop: the faces in sorted order.\<close>

fun draw_faces :: "Vertex list \<Rightarrow> IndexedFace list \<Rightarrow> bool list \<Rightarrow> ub + (bool list \<times> cmd list)" where
  "draw_faces t [] vertexVisible = Inr (vertexVisible, [])"
| "draw_faces t (entry # es) vertexVisible =
     bnd (draw_face t (face entry) vertexVisible) (\<lambda>(vis, cs).
     bnd (draw_faces t es vis) (\<lambda>(vis', cs'). Inr (vis', cs @ cs')))"

definition blueDot :: COLORREF where
  "blueDot = RGB 0 0 255"

text \<open>Third loop: a dot for each vertex that is marked and strictly in front.\<close>

fun draw_dots :: "(Vertex \<times> bool) list \<Rightarrow> ub + cmd list" where
  "draw_dots [] = Inr []"
| "draw_dots ((v, visible) # rest) =
     (if \<not> visible then draw_dots rest
      else if fle (v_z v) (Fin 0) then draw_dots rest
      else bnd (project v) (\<lambda>p.
           bnd (draw_dots rest) (\<lambda>cs.
           Inr (Ellipse (fst p - 3) (snd p - 3) (fst p + 3) (snd p + 3) blueDot # cs))))"

definition drawShadedModel ::
  "(IndexedFace list \<Rightarrow> IndexedFace list) \<Rightarrow> viewer \<Rightarrow> ub + cmd list" where
  "drawShadedModel srt st =
     (let vertexVisible = replicate (length (transformed st)) False
      in bnd (index_faces (transformed st) (faces st)) (\<lambda>sortedFaces.
         bnd (draw_faces (transformed st) (srt sortedFaces) vertexVisible) (\<lambda>(vis, cs).
         bnd (draw_dots (zip (transformed st) vis)) (\<lambda>dots.
         Inr (cs @ dots)))))"

text \<open>
  Two sorts that meet the standard's promise. Both insert each element before the
  first element that compares greater. \<open>insertion_sort\<close> takes the elements from the
  front and so keeps elements that compare equal in their order;
  \<open>backward_insertion_sort\<close> takes them from the back and reverses that order.
\<close>

fun insert_face :: "IndexedFace \<Rightarrow> IndexedFace list \<Rightarrow> IndexedFace list" where
  "insert_face e [] = [e]"
| "insert_face e (x # xs) = (if avgZ_less e x then e # x # xs else x # insert_face e xs)"

definition insertion_sort :: "IndexedFace list \<Rightarrow> IndexedFace list" where
  "insertion_sort xs = fold insert_face xs []"


section \<open>The loader\<close>

text \<open>
  An input file stream: the characters not yet read, and the state bits \<open>eofbit\<close>
  and \<open>failbit\<close>. \<open>std::getline\<close> on a stream that is not good sets \<open>failbit\<close> and
  leaves the string as it was. On a good stream it clears the string and moves
  characters to it up to a newline, which it drops; when it meets the end of the
  file first it sets \<open>eofbit\<close>, and \<open>failbit\<close> too when it moved no character.
\<close>

record ifstream =
  content :: string
  eofbit :: bool
  failbit :: bool

definition good :: "ifstream \<Rightarrow> bool" where
  "good file = (\<not> eofbit file \<and> \<not> failbit file)"

definition newline :: char where
  "newline = CHR 0x0A"

definition getline :: "ifstream \<Rightarrow> string \<Rightarrow> ifstream \<times> string" where
  "getline file line =
     (if \<not> good file then (file \<lparr> failbit := True \<rparr>, line)
      else
        let l = takeWhile (\<lambda>c. c \<noteq> newline) (content file)
        in case dropWhile (\<lambda>c. c \<noteq> newline) (content file) of
             [] \<Rightarrow> (file \<lparr> content := [], eofbit := True, failbit := (l = []) \<rparr>, l)
           | _ # r \<Rightarrow> (file \<lparr> content := r \<rparr>, l))"

text \<open>\<open>std::replace(line.begin(), line.end(), ',', ' ')\<close>.\<close>

definition replace_commas :: "string \<Rightarrow> string" where
  "replace_commas line = map (\<lambda>c. if c = CHR '','' then CHR '' '' else c) line"

text \<open>
  The loop of \<open>loadVertices\<close> and of \<open>loadFaces\<close>, which differ only in the record
  they extract from a line. \<open>extract\<close> stands for the \<open>istringstream\<close> extractions
  \<open>iss >> v.id >> v.x >> v.y >> v.z\<close> and \<open>iss >> f.v1 >> f.v2 >> f.v3\<close>. On an
  empty line the loop takes back the increment of \<open>i\<close> and goes on; it does not look
  at the state of the stream, so it can run forever, and the model returns \<open>None\<close>
  where it does.
\<close>

partial_function (option) read_records ::
  "(string \<Rightarrow> 'r) \<Rightarrow> int \<Rightarrow> int \<Rightarrow> ifstream \<Rightarrow> string \<Rightarrow> 'r list \<Rightarrow> ('r list \<times> ifstream) option"
where
  "read_records extract n i file line acc =
     (if i < n then
        (case getline file line of (file', line') \<Rightarrow>
           if line' = [] then read_records extract n i file' line' acc
           else read_records extract n (i + 1) file' (replace_commas line')
                  (acc @ [extract (replace_commas line')]))
      else Some (acc, file))"

definition loadVertices ::
  "(string \<Rightarrow> Vertex) \<Rightarrow> ifstream \<Rightarrow> int \<Rightarrow> (Vertex list \<times> ifstream) option" where
  "loadVertices extract file vertexCount = read_records extract vertexCount 0 file [] []"

definition loadFaces ::
  "(string \<Rightarrow> Face) \<Rightarrow> ifstream \<Rightarrow> int \<Rightarrow> (Face list \<times> ifstream) option" where
  "loadFaces extract file faceCount = read_records extract faceCount 0 file [] []"

section \<open>Formatted extraction\<close>

text \<open>
  The records are read with \<open>operator>>\<close> of the C++ library. For an \<open>int\<close> it skips
  white space, takes an optional sign and then decimal digits; with no digit it
  fails. The model covers fields written as plain decimals: for a \<open>float\<close> it takes an
  optional sign, digits and an optional fraction, and exponents are not modelled,
  as values beyond the range of the type are not. A failed extraction stores 0 and
  makes every later extraction from the same line do nothing; the fields those would
  have written are uninitialised in the program and are 0 in the model.
\<close>

definition isspace :: "char \<Rightarrow> bool" where
  "isspace c = (c \<in> set [CHR '' '', CHR 0x09, CHR 0x0A, CHR 0x0B, CHR 0x0C, CHR 0x0D])"

definition isdigit :: "char \<Rightarrow> bool" where
  "isdigit c = (c \<in> set ''0123456789'')"

definition digits_value :: "string \<Rightarrow> int" where
  "digits_value ds = foldl (\<lambda>a c. 10 * a + (int (of_char c) - 48)) 0 ds"

text \<open>The sign and what follows it, after the leading white space.\<close>

definition skip_sign :: "string \<Rightarrow> bool \<times> string" where
  "skip_sign s =
     (case dropWhile isspace s of
        [] \<Rightarrow> (False, [])
      | c # r \<Rightarrow> if c = CHR ''-'' then (True, r)
                 else if c = CHR ''+'' then (False, r)
                 else (False, c # r))"

definition extract_int :: "string \<Rightarrow> int option \<times> string" where
  "extract_int s =
     (case skip_sign s of (neg, s') \<Rightarrow>
        let ds = takeWhile isdigit s'
        in if ds = [] then (None, s')
           else (Some (if neg then - digits_value ds else digits_value ds),
                 dropWhile isdigit s'))"

definition extract_float :: "string \<Rightarrow> flt option \<times> string" where
  "extract_float s =
     (case skip_sign s of (neg, s') \<Rightarrow>
        let ip = takeWhile isdigit s';
            r = dropWhile isdigit s';
            fp = (case r of c # r' \<Rightarrow> if c = CHR ''.'' then takeWhile isdigit r' else [] | [] \<Rightarrow> []);
            rest = (case r of c # r' \<Rightarrow> if c = CHR ''.'' then dropWhile isdigit r' else r | [] \<Rightarrow> []);
            v = of_int (digits_value ip) + of_int (digits_value fp) / 10 ^ length fp
        in if ip = [] \<and> fp = [] then (None, s')
           else (Some (Fin (if neg then - v else v)), rest))"

text \<open>\<open>iss >> v.id >> v.x >> v.y >> v.z\<close> and \<open>iss >> f.v1 >> f.v2 >> f.v3\<close>.\<close>

definition read_vertex :: "string \<Rightarrow> Vertex" where
  "read_vertex line =
     (case extract_int line of
        (None, _) \<Rightarrow> \<lparr> v_id = 0, v_x = Fin 0, v_y = Fin 0, v_z = Fin 0 \<rparr>
      | (Some i, r1) \<Rightarrow>
          (case extract_float r1 of
             (None, _) \<Rightarrow> \<lparr> v_id = i, v_x = Fin 0, v_y = Fin 0, v_z = Fin 0 \<rparr>
           | (Some a, r2) \<Rightarrow>
               (case extract_float r2 of
                  (None, _) \<Rightarrow> \<lparr> v_id = i, v_x = a, v_y = Fin 0, v_z = Fin 0 \<rparr>
                | (Some b, r3) \<Rightarrow>
                    (case extract_float r3 of
                       (None, _) \<Rightarrow> \<lparr> v_id = i, v_x = a, v_y = b, v_z = Fin 0 \<rparr>
                     | (Some c, _) \<Rightarrow> \<lparr> v_id = i, v_x = a, v_y = b, v_z = c \<rparr>))))"

definition read_face :: "string \<Rightarrow> Face" where
  "read_face line =
     (case extract_int line of
        (None, _) \<Rightarrow> \<lparr> f_v1 = 0, f_v2 = 0, f_v3 = 0 \<rparr>
      | (Some a, r1) \<Rightarrow>
          (case extract_int r1 of
             (None, _) \<Rightarrow> \<lparr> f_v1 = a, f_v2 = 0, f_v3 = 0 \<rparr>
           | (Some b, r2) \<Rightarrow>
               (case extract_int r2 of
                  (None, _) \<Rightarrow> \<lparr> f_v1 = a, f_v2 = b, f_v3 = 0 \<rparr>
                | (Some c, _) \<Rightarrow> \<lparr> f_v1 = a, f_v2 = b, f_v3 = c \<rparr>)))"

text \<open>
  \<open>WinMain\<close> from the header line to the first \<open>applyTransform\<close>, on a file that is
  open: the header gives \<open>vertexCount\<close> and \<open>faceCount\<close>, the two loaders read the
  records, and the angles are 0.
\<close>

definition header_counts :: "string \<Rightarrow> int \<times> int" where
  "header_counts header =
     (case extract_int (replace_commas header) of
        (None, _) \<Rightarrow> (0, 0)
      | (Some vertexCount, r) \<Rightarrow>
          (case extract_int r of
             (None, _) \<Rightarrow> (vertexCount, 0)
           | (Some faceCount, _) \<Rightarrow> (vertexCount, faceCount)))"

definition load_model :: "ifstream \<Rightarrow> viewer option" where
  "load_model file =
     (case getline file [] of (file1, header) \<Rightarrow>
        case header_counts header of (vertexCount, faceCount) \<Rightarrow>
          case loadVertices read_vertex file1 vertexCount of
            None \<Rightarrow> None
          | Some (vs, file2) \<Rightarrow>
              (case loadFaces read_face file2 faceCount of
                 None \<Rightarrow> None
               | Some (fs, file3) \<Rightarrow>
                   Some (applyTransform
                     \<lparr> vertices = vs, faces = fs, transformed = [],
                       angleX = Fin 0, angleY = Fin 0 \<rparr>)))"

definition open_file :: "string \<Rightarrow> ifstream" where
  "open_file s = \<lparr> content = s, eofbit = False, failbit = False \<rparr>"

section \<open>The transform as the specification words it\<close>

text \<open>
  The specification describes the transform on exact coordinates. A point is a triple
  of reals; \<open>coords\<close> reads the point of a vertex whose coordinates are finite, and
  \<open>at_point\<close> builds the vertex with a given id at a point.
\<close>

type_synonym vec = "real \<times> real \<times> real"

definition coords :: "Vertex \<Rightarrow> vec" where
  "coords v = (val (v_x v), val (v_y v), val (v_z v))"

definition fin_vertex :: "Vertex \<Rightarrow> bool" where
  "fin_vertex v = (is_fin (v_x v) \<and> is_fin (v_y v) \<and> is_fin (v_z v))"

definition at_point :: "int \<Rightarrow> vec \<Rightarrow> Vertex" where
  "at_point i p = (case p of (a, b, c) \<Rightarrow> \<lparr> v_id = i, v_x = Fin a, v_y = Fin b, v_z = Fin c \<rparr>)"











section \<open>Faces of a transformed mesh\<close>

text \<open>
  Vocabulary for the statements about the rasterizer. \<open>corner t i\<close> is the vertex that
  the 1-based index \<open>i\<close> of a face resolves to, by position. A face is in range when
  its three indices lie within \<open>[1, length t]\<close>.
\<close>

definition corner :: "Vertex list \<Rightarrow> int \<Rightarrow> Vertex" where
  "corner t i = t ! nat (i - 1)"

definition in_range :: "Vertex list \<Rightarrow> int \<Rightarrow> bool" where
  "in_range t i = (1 \<le> i \<and> i \<le> int (length t))"

definition face_ok :: "Vertex list \<Rightarrow> Face \<Rightarrow> bool" where
  "face_ok t f = (in_range t (f_v1 f) \<and> in_range t (f_v2 f) \<and> in_range t (f_v3 f))"

definition faces_ok :: "Vertex list \<Rightarrow> Face list \<Rightarrow> bool" where
  "faces_ok t fs = list_all (face_ok t) fs"

text \<open>The mean depth of a face, and the list that the first loop builds.\<close>

definition index_face :: "Vertex list \<Rightarrow> Face \<Rightarrow> IndexedFace" where
  "index_face t f =
     \<lparr> face = f,
       avgZ = fdiv (fadd (fadd (v_z (corner t (f_v1 f))) (v_z (corner t (f_v2 f))))
                     (v_z (corner t (f_v3 f)))) (Fin 3) \<rparr>"

definition indexed :: "viewer \<Rightarrow> IndexedFace list" where
  "indexed st = map (index_face (transformed st)) (faces st)"

text \<open>
  A face is degenerate when the length of its cross product is below \<open>1e-6\<close>, and
  front-facing when it is not degenerate and the Z component of its unit normal is
  strictly positive.
\<close>

definition normal_of :: "Vertex list \<Rightarrow> Face \<Rightarrow> flt \<times> flt \<times> flt \<times> flt" where
  "normal_of t f = face_normal (corner t (f_v1 f)) (corner t (f_v2 f)) (corner t (f_v3 f))"

definition degenerate :: "Vertex list \<Rightarrow> Face \<Rightarrow> bool" where
  "degenerate t f = (case normal_of t f of (nx, ny, nz, len) \<Rightarrow> fless len (Fin 0.000001))"

definition front_facing :: "Vertex list \<Rightarrow> Face \<Rightarrow> bool" where
  "front_facing t f =
     (case normal_of t f of (nx, ny, nz, len) \<Rightarrow>
        \<not> fless len (Fin 0.000001) \<and> fless (Fin 0) (fdiv nz len))"

text \<open>Vertex number \<open>i\<close> (counted from 0) is a corner of the face.\<close>

definition has_corner :: "Face \<Rightarrow> nat \<Rightarrow> bool" where
  "has_corner f i = (int i = f_v1 f - 1 \<or> int i = f_v2 f - 1 \<or> int i = f_v3 f - 1)"

definition marked :: "Vertex list \<Rightarrow> Face list \<Rightarrow> nat \<Rightarrow> bool" where
  "marked t fs i = (\<exists>f\<in>set fs. front_facing t f \<and> has_corner f i)"

section \<open>Lines of a file\<close>

text \<open>The text of a list of lines, each ended by a newline.\<close>

definition text_of_lines :: "string list \<Rightarrow> string" where
  "text_of_lines ls = concat (map (\<lambda>l. l @ [newline]) ls)"

definition record_lines :: "string list \<Rightarrow> string list" where
  "record_lines ls = filter (\<lambda>l. l \<noteq> []) ls"

section \<open>Meshes that differ only in their ids\<close>

definition strip :: "Vertex \<Rightarrow> Vertex" where
  "strip v = v \<lparr> v_id := 0 \<rparr>"

definition same_geometry :: "viewer \<Rightarrow> viewer \<Rightarrow> bool" where
  "same_geometry st st' =
     (map strip (vertices st) = map strip (vertices st') \<and> faces st = faces st'
      \<and> angleX st = angleX st' \<and> angleY st = angleY st')"

section \<open>Shading and projection as the specification words them\<close>

text \<open>
  The normal of a triangle is the cross product of its edges \<open>v2 - v1\<close> and \<open>v3 - v1\<close>;
  the unit normal is the normal divided by its length, and the shading intensity is
  the absolute value of the Z component of the unit normal.
\<close>

definition spec_cross :: "vec \<Rightarrow> vec \<Rightarrow> vec \<Rightarrow> vec" where
  "spec_cross p1 p2 p3 =
     (case (p1, p2, p3) of ((x1, y1, z1), (x2, y2, z2), (x3, y3, z3)) \<Rightarrow>
        ((y2 - y1) * (z3 - z1) - (z2 - z1) * (y3 - y1),
         (z2 - z1) * (x3 - x1) - (x2 - x1) * (z3 - z1),
         (x2 - x1) * (y3 - y1) - (y2 - y1) * (x3 - x1)))"

definition spec_length :: "vec \<Rightarrow> real" where
  "spec_length n = (case n of (a, b, c) \<Rightarrow> sqrt (a * a + b * b + c * c))"

definition spec_unit_normal :: "vec \<Rightarrow> vec \<Rightarrow> vec \<Rightarrow> vec" where
  "spec_unit_normal p1 p2 p3 =
     (case spec_cross p1 p2 p3 of (a, b, c) \<Rightarrow>
        (a / spec_length (a, b, c), b / spec_length (a, b, c), c / spec_length (a, b, c)))"

definition spec_intensity :: "vec \<Rightarrow> vec \<Rightarrow> vec \<Rightarrow> real" where
  "spec_intensity p1 p2 p3 = \<bar>snd (snd (spec_unit_normal p1 p2 p3))\<bar>"

definition spec_degenerate :: "vec \<Rightarrow> vec \<Rightarrow> vec \<Rightarrow> bool" where
  "spec_degenerate p1 p2 p3 = (spec_length (spec_cross p1 p2 p3) < 0.000001)"

text \<open>The blue channel: \<open>0x5F + intensity * (0xFF - 0x5F)\<close>, converted to an integer.\<close>

definition blue_of :: "real \<Rightarrow> int" where
  "blue_of intensity = truncation (0x5F + intensity * (0xFF - 0x5F))"

text \<open>
  Projection on the 800 by 600 viewport. A vertex is drawable when its coordinates
  are finite and both screen coordinates fit a 32-bit integer.
\<close>

definition screen_point :: "Vertex \<Rightarrow> POINT" where
  "screen_point v =
     (truncation (400 + val (v_x v) * 240), truncation (300 - val (v_y v) * 240))"

definition castable :: "real \<Rightarrow> bool" where
  "castable r = (- 2147483649 < r \<and> r < 2147483648)"

definition drawable :: "Vertex \<Rightarrow> bool" where
  "drawable v =
     (fin_vertex v \<and> castable (400 + val (v_x v) * 240) \<and> castable (300 - val (v_y v) * 240))"


text \<open>The calls that one face draws, and the marks it leaves.\<close>

definition fill_of :: "Vertex list \<Rightarrow> Face \<Rightarrow> cmd" where
  "fill_of t f =
     Polygon [screen_point (corner t (f_v1 f)), screen_point (corner t (f_v2 f)),
              screen_point (corner t (f_v3 f))]
       (RGB 0 0 (blue_of (spec_intensity (coords (corner t (f_v1 f)))
                            (coords (corner t (f_v2 f))) (coords (corner t (f_v3 f))))))"

definition face_cmds :: "Vertex list \<Rightarrow> Face \<Rightarrow> cmd list" where
  "face_cmds t f =
     [fill_of t f,
      MoveToEx (screen_point (corner t (f_v1 f))),
      LineTo (screen_point (corner t (f_v2 f))) black,
      LineTo (screen_point (corner t (f_v3 f))) black,
      LineTo (screen_point (corner t (f_v1 f))) black]"

definition mark_face :: "Vertex list \<Rightarrow> Face \<Rightarrow> bool list \<Rightarrow> bool list" where
  "mark_face t f vis =
     (if front_facing t f
      then vis [nat (f_v1 f - 1) := True, nat (f_v2 f - 1) := True, nat (f_v3 f - 1) := True]
      else vis)"

definition dot_of :: "Vertex \<Rightarrow> cmd" where
  "dot_of v =
     (case screen_point v of (sx, sy) \<Rightarrow> Ellipse (sx - 3) (sy - 3) (sx + 3) (sy + 3) blueDot)"

definition dots_of :: "(Vertex \<times> bool) list \<Rightarrow> cmd list" where
  "dots_of zs = map (\<lambda>z. dot_of (fst z)) (filter (\<lambda>z. snd z \<and> 0 < val (v_z (fst z))) zs)"


definition is_dot :: "cmd \<Rightarrow> bool" where
  "is_dot c = (case c of Ellipse l u r b col \<Rightarrow> True | _ \<Rightarrow> False)"

section \<open>Sample inputs\<close>




text \<open>
  A box with half-sizes 1, 2 and 2, and five faces over it: a front-facing triangle of
  the top, a face that names vertex 1 twice, a triangle of a side, a triangle of the
  bottom, and a back-facing triangle of the top.
\<close>

definition box_mesh :: viewer where
  "box_mesh =
     \<lparr> vertices = [\<lparr> v_id = 1, v_x = Fin 1, v_y = Fin 2, v_z = Fin 2 \<rparr>,
                   \<lparr> v_id = 2, v_x = Fin (- 1), v_y = Fin 2, v_z = Fin 2 \<rparr>,
                   \<lparr> v_id = 3, v_x = Fin (- 1), v_y = Fin (- 2), v_z = Fin 2 \<rparr>,
                   \<lparr> v_id = 4, v_x = Fin 1, v_y = Fin (- 2), v_z = Fin 2 \<rparr>,
                   \<lparr> v_id = 5, v_x = Fin 1, v_y = Fin 2, v_z = Fin (- 2) \<rparr>,
                   \<lparr> v_id = 6, v_x = Fin (- 1), v_y = Fin 2, v_z = Fin (- 2) \<rparr>,
                   \<lparr> v_id = 7, v_x = Fin (- 1), v_y = Fin (- 2), v_z = Fin (- 2) \<rparr>,
                   \<lparr> v_id = 8, v_x = Fin 1, v_y = Fin (- 2), v_z = Fin (- 2) \<rparr>],
       faces = [\<lparr> f_v1 = 1, f_v2 = 2, f_v3 = 3 \<rparr>,
                \<lparr> f_v1 = 1, f_v2 = 2, f_v3 = 1 \<rparr>,
                \<lparr> f_v1 = 1, f_v2 = 2, f_v3 = 5 \<rparr>,
                \<lparr> f_v1 = 5, f_v2 = 6, f_v3 = 7 \<rparr>,
                \<lparr> f_v1 = 1, f_v2 = 4, f_v3 = 3 \<rparr>],
       transformed = [], angleX = Fin 0, angleY = Fin 0 \<rparr>"

definition box :: viewer where
  "box = applyTransform box_mesh"

text \<open>Four vertices at distance 3 from their centroid, and one face across them.\<close>

definition kite_mesh :: viewer where
  "kite_mesh =
     \<lparr> vertices = [\<lparr> v_id = 1, v_x = Fin 1, v_y = Fin 2, v_z = Fin 2 \<rparr>,
                   \<lparr> v_id = 2, v_x = Fin (- 1), v_y = Fin (- 2), v_z = Fin (- 2) \<rparr>,
                   \<lparr> v_id = 3, v_x = Fin 2, v_y = Fin (- 2), v_z = Fin 1 \<rparr>,
                   \<lparr> v_id = 4, v_x = Fin (- 2), v_y = Fin 2, v_z = Fin (- 1) \<rparr>],
       faces = [\<lparr> f_v1 = 1, f_v2 = 2, f_v3 = 3 \<rparr>],
       transformed = [], angleX = Fin 0, angleY = Fin 0 \<rparr>"

definition kite :: viewer where
  "kite = applyTransform kite_mesh"

text \<open>The triangle of the specification's example: (0,0,0), (1,0,0), (0,1,0).\<close>

definition unit_v1 :: Vertex where
  "unit_v1 = \<lparr> v_id = 1, v_x = Fin 0, v_y = Fin 0, v_z = Fin 0 \<rparr>"

definition unit_v2 :: Vertex where
  "unit_v2 = \<lparr> v_id = 2, v_x = Fin 1, v_y = Fin 0, v_z = Fin 0 \<rparr>"

definition unit_v3 :: Vertex where
  "unit_v3 = \<lparr> v_id = 3, v_x = Fin 0, v_y = Fin 1, v_z = Fin 0 \<rparr>"

text \<open>A file of three vertices and one face whose third index is 7.\<close>

definition three_vertices_bad_face :: string where
  "three_vertices_bad_face =
     ''3 1'' @ [newline] @ ''1 0 0 0'' @ [newline] @ ''2 1 0 0'' @ [newline]
     @ ''3 0 1 0'' @ [newline] @ ''1 2 7'' @ [newline]"

definition three_vertices_mesh :: viewer where
  "three_vertices_mesh =
     \<lparr> vertices = [\<lparr> v_id = 1, v_x = Fin 0, v_y = Fin 0, v_z = Fin 0 \<rparr>,
                   \<lparr> v_id = 2, v_x = Fin 1, v_y = Fin 0, v_z = Fin 0 \<rparr>,
                   \<lparr> v_id = 3, v_x = Fin 0, v_y = Fin 1, v_z = Fin 0 \<rparr>],
       faces = [\<lparr> f_v1 = 1, f_v2 = 2, f_v3 = 7 \<rparr>],
       transformed = [], angleX = Fin 0, angleY = Fin 0 \<rparr>"

text \<open>The box with other ids on its vertices.\<close>

definition box_mesh_renumbered :: viewer where
  "box_mesh_renumbered =
     box_mesh \<lparr> vertices := map (\<lambda>v. v \<lparr> v_id := 100 - v_id v \<rparr>) (vertices box_mesh) \<rparr>"

section \<open>Finite values\<close>

lemma val_Fin [simp]: "val (Fin r) = r"
  by (simp add: val_def)

lemma is_fin_Fin [simp]: "is_fin (Fin r)"
  by (simp add: is_fin_def)

lemma is_fin_iff: "is_fin a \<longleftrightarrow> a = Fin (val a)"
  by (cases a) (simp_all add: is_fin_def val_def)

lemma fsub_Fin [simp]: "fsub (Fin a) (Fin b) = Fin (a - b)"
  by (simp add: fsub_def)

lemma bnd_Inr [simp]: "bnd (Inr a) k = k a"
  by (simp add: bnd_def)

lemma bnd_Inl [simp]: "bnd (Inl e) k = Inl e"
  by (simp add: bnd_def)

lemma fin_vertexD:
  "fin_vertex v \<Longrightarrow>
   v_x v = Fin (val (v_x v)) \<and> v_y v = Fin (val (v_y v)) \<and> v_z v = Fin (val (v_z v))"
  unfolding fin_vertex_def using is_fin_iff by blast



lemma v_id_at_point [simp]: "v_id (at_point i p) = i"
  by (cases p) (simp add: at_point_def)

section \<open>The loops of applyTransform on finite vertices\<close>














section \<open>Normalisation bounds, rotations preserve distance\<close>











section \<open>The centroid of the transformed vertices\<close>








section \<open>applyTransform has no failure path\<close>




section \<open>Reads of the transformed vector\<close>

lemma vec_at_corner: "in_range t i \<Longrightarrow> vec_at t (i - 1) = Inr (corner t i)"
  by (simp add: vec_at_def in_range_def corner_def)

lemma vec_at_out: "\<not> in_range t i \<Longrightarrow> vec_at t (i - 1) = Inl OutOfBounds"
  unfolding vec_at_def in_range_def by (simp split: if_splits) arith

lemma bnd_vec_at_oob:
  "(\<And>a. k a = Inl OutOfBounds) \<Longrightarrow> bnd (vec_at t i) k = Inl OutOfBounds"
  by (simp add: vec_at_def)

lemma index_faces_in_range:
  "faces_ok t fs \<Longrightarrow> index_faces t fs = Inr (map (index_face t) fs)"
  by (induction fs) (simp_all add: faces_ok_def face_ok_def vec_at_corner index_face_def Let_def)

lemma index_faces_out:
  "\<not> faces_ok t fs \<Longrightarrow> index_faces t fs = Inl OutOfBounds"
proof (induction fs)
  case Nil
  then show ?case by (simp add: faces_ok_def)
next
  case (Cons f fs)
  show ?case
  proof (cases "face_ok t f")
    case True
    with Cons.prems have "\<not> faces_ok t fs" by (simp add: faces_ok_def)
    then have "index_faces t fs = Inl OutOfBounds" by (rule Cons.IH)
    with True show ?thesis
      by (simp add: face_ok_def vec_at_corner Let_def)
  next
    case False
    then consider "\<not> in_range t (f_v1 f)" | "\<not> in_range t (f_v2 f)" | "\<not> in_range t (f_v3 f)"
      by (auto simp: face_ok_def)
    then show ?thesis
    proof cases
      case 1
      then show ?thesis by (simp add: vec_at_out)
    next
      case 2
      then show ?thesis by (simp add: vec_at_out bnd_vec_at_oob)
    next
      case 3
      then show ?thesis by (simp add: vec_at_out bnd_vec_at_oob)
    qed
  qed
qed

lemma draw_face_in_range:
  "face_ok t f \<Longrightarrow>
   draw_face t f vis =
     shade_face f (corner t (f_v1 f)) (corner t (f_v2 f)) (corner t (f_v3 f)) vis"
  by (simp add: draw_face_def face_ok_def vec_at_corner)

lemma cast_int_not_oob: "cast_int a \<noteq> Inl OutOfBounds"
  by (cases a) simp_all

lemma bnd_not_oob:
  "m \<noteq> Inl OutOfBounds \<Longrightarrow> (\<And>a. k a \<noteq> Inl OutOfBounds) \<Longrightarrow> bnd m k \<noteq> Inl OutOfBounds"
  by (cases m) (simp_all add: bnd_def)

lemma project_not_oob: "project v \<noteq> Inl OutOfBounds"
  unfolding project_def Let_def
  by (intro bnd_not_oob cast_int_not_oob) simp

lemma shade_face_not_oob: "shade_face f a b c vis \<noteq> Inl OutOfBounds"
proof -
  obtain nx ny nz len where n: "face_normal a b c = (nx, ny, nz, len)"
    by (cases "face_normal a b c")
  show ?thesis
    unfolding shade_face_def n prod.case Let_def
    by (simp add: bnd_not_oob cast_int_not_oob project_not_oob)
qed

lemma draw_faces_not_oob:
  "\<forall>e\<in>set es. face_ok t (face e) \<Longrightarrow> draw_faces t es vis \<noteq> Inl OutOfBounds"
proof (induction es arbitrary: vis)
  case Nil
  show ?case by simp
next
  case (Cons e es)
  then have ok: "face_ok t (face e)" and rest: "\<forall>e\<in>set es. face_ok t (face e)" by simp_all
  have "draw_face t (face e) vis \<noteq> Inl OutOfBounds"
    by (simp add: draw_face_in_range [OF ok] shade_face_not_oob)
  moreover have "bnd (draw_faces t es v) (\<lambda>(vis', cs'). Inr (vis', cs @ cs')) \<noteq> Inl OutOfBounds"
    for v cs
    by (rule bnd_not_oob [OF Cons.IH [OF rest]]) (simp add: split_def)
  ultimately show ?case
    by (simp add: bnd_not_oob split_def)
qed

lemma draw_dots_not_oob: "draw_dots zs \<noteq> Inl OutOfBounds"
proof (induction zs)
  case Nil
  show ?case by simp
next
  case (Cons z zs)
  obtain v b where z: "z = (v, b)" by (cases z)
  show ?case
    using Cons.IH by (simp add: z bnd_not_oob project_not_oob)
qed

lemma sorted_faces_ok:
  assumes "std_sort_post xs ys" and "\<forall>e\<in>set xs. face_ok t (face e)"
  shows "\<forall>e\<in>set ys. face_ok t (face e)"
proof -
  from assms(1) have "set ys = set xs"
    by (auto simp: std_sort_post_def dest: mset_eq_setD)
  with assms(2) show ?thesis by simp
qed

section \<open>The rasterizer on drawable vertices\<close>

lemma project_drawable: "drawable v \<Longrightarrow> project v = Inr (screen_point v)"
proof -
  assume d: "drawable v"
  then have "fin_vertex v" by (simp add: drawable_def)
  from fin_vertexD [OF this] obtain p q r where
    v: "v_x v = Fin p" "v_y v = Fin q" "v_z v = Fin r" by blast
  from d have "castable (400 + p * 240)" "castable (300 - q * 240)"
    by (simp_all add: drawable_def v)
  then show ?thesis
    by (simp add: project_def Let_def WIDTH_def HEIGHT_def of_count_def v castable_def
        screen_point_def)
qed

lemma face_normal_fin:
  assumes "fin_vertex v1" "fin_vertex v2" "fin_vertex v3"
  shows "face_normal v1 v2 v3 =
     (case spec_cross (coords v1) (coords v2) (coords v3) of (a, b, c) \<Rightarrow>
        (Fin a, Fin b, Fin c, Fin (spec_length (a, b, c))))"
proof -
  from fin_vertexD [OF assms(1)] obtain x1 y1 z1 where
    v1: "v_x v1 = Fin x1" "v_y v1 = Fin y1" "v_z v1 = Fin z1" by blast
  from fin_vertexD [OF assms(2)] obtain x2 y2 z2 where
    v2: "v_x v2 = Fin x2" "v_y v2 = Fin y2" "v_z v2 = Fin z2" by blast
  from fin_vertexD [OF assms(3)] obtain x3 y3 z3 where
    v3: "v_x v3 = Fin x3" "v_y v3 = Fin y3" "v_z v3 = Fin z3" by blast
  have nn: "\<not> a * a + b * b + c * c < 0" for a b c :: real
    by (simp add: not_less)
  show ?thesis
    by (simp add: face_normal_def Let_def v1 v2 v3 coords_def spec_cross_def spec_length_def nn)
qed

lemma abs_component_le_length: "\<bar>c\<bar> \<le> spec_length (a, b, c)"
proof -
  have "c * c \<le> a * a + b * b + c * c" by simp
  then have "sqrt (c * c) \<le> sqrt (a * a + b * b + c * c)" by (rule real_sqrt_le_mono)
  then show ?thesis by (simp add: spec_length_def)
qed

lemma intensity_bounds:
  assumes "\<not> spec_length (a, b, c) < 0.000001"
  shows "0 \<le> \<bar>c / spec_length (a, b, c)\<bar>" and "\<bar>c / spec_length (a, b, c)\<bar> \<le> 1"
proof -
  show "0 \<le> \<bar>c / spec_length (a, b, c)\<bar>" by simp
  from assms have pos: "0 < spec_length (a, b, c)" by simp
  have "\<bar>c / spec_length (a, b, c)\<bar> = \<bar>c\<bar> / spec_length (a, b, c)"
    using pos by simp
  also have "\<dots> \<le> 1"
    using pos abs_component_le_length [of c a b] by simp
  finally show "\<bar>c / spec_length (a, b, c)\<bar> \<le> 1" .
qed

lemma cast_blue:
  assumes "0 \<le> i" and "i \<le> 1"
  shows "cast_int (fadd (of_count 0x5F) (fmul (Fin i) (of_count (0xFF - 0x5F)))) = Inr (blue_of i)"
proof -
  have "0 \<le> i * 160" using assms(1) by simp
  moreover have "i * 160 \<le> 160" using assms(2) by simp
  ultimately show ?thesis
    by (simp add: of_count_def blue_of_def)
qed

lemma corner_in_set: "in_range t i \<Longrightarrow> corner t i \<in> set t"
proof -
  assume "in_range t i"
  then have "nat (i - 1) < length t" unfolding in_range_def by linarith
  then show ?thesis unfolding corner_def by (rule nth_mem)
qed

lemma normal_of_fin:
  assumes "fin_vertex (corner t (f_v1 f))" "fin_vertex (corner t (f_v2 f))"
    "fin_vertex (corner t (f_v3 f))"
  shows "normal_of t f =
     (case spec_cross (coords (corner t (f_v1 f))) (coords (corner t (f_v2 f)))
             (coords (corner t (f_v3 f))) of (a, b, c) \<Rightarrow>
        (Fin a, Fin b, Fin c, Fin (spec_length (a, b, c))))"
  by (simp only: normal_of_def face_normal_fin [OF assms])

lemma shade_face_fin:
  assumes d: "drawable v1" "drawable v2" "drawable v3"
  shows "shade_face f v1 v2 v3 vis =
     (if spec_degenerate (coords v1) (coords v2) (coords v3) then Inr (vis, [])
      else Inr (if 0 < snd (snd (spec_unit_normal (coords v1) (coords v2) (coords v3)))
                then vis [nat (f_v1 f - 1) := True, nat (f_v2 f - 1) := True,
                          nat (f_v3 f - 1) := True]
                else vis,
                [Polygon [screen_point v1, screen_point v2, screen_point v3]
                   (RGB 0 0 (blue_of (spec_intensity (coords v1) (coords v2) (coords v3)))),
                 MoveToEx (screen_point v1), LineTo (screen_point v2) black,
                 LineTo (screen_point v3) black, LineTo (screen_point v1) black]))"
proof -
  from d have fin: "fin_vertex v1" "fin_vertex v2" "fin_vertex v3"
    by (simp_all add: drawable_def)
  obtain a b c where cr: "spec_cross (coords v1) (coords v2) (coords v3) = (a, b, c)"
    by (cases "spec_cross (coords v1) (coords v2) (coords v3)")
  have fn: "face_normal v1 v2 v3 = (Fin a, Fin b, Fin c, Fin (spec_length (a, b, c)))"
    by (simp add: face_normal_fin [OF fin] cr)
  show ?thesis
  proof (cases "spec_length (a, b, c) < 0.000001")
    case True
    then show ?thesis
      by (simp add: shade_face_def fn spec_degenerate_def cr)
  next
    case False
    then have nz: "spec_length (a, b, c) \<noteq> 0" by auto
    note ib = intensity_bounds [OF False]
    have int: "spec_intensity (coords v1) (coords v2) (coords v3) = \<bar>c / spec_length (a, b, c)\<bar>"
      by (simp add: spec_intensity_def spec_unit_normal_def cr)
    have un: "snd (snd (spec_unit_normal (coords v1) (coords v2) (coords v3))) = c / spec_length (a, b, c)"
      by (simp add: spec_unit_normal_def cr)
    have blue: "cast_int (fadd (of_count 0x5F)
                  (fmul (Fin \<bar>c / spec_length (a, b, c)\<bar>) (of_count (0xFF - 0x5F)))) =
                Inr (blue_of \<bar>c / spec_length (a, b, c)\<bar>)"
      by (rule cast_blue [OF ib])
    show ?thesis
      using False nz blue
      by (simp add: shade_face_def fn spec_degenerate_def cr Let_def un int
          project_drawable [OF d(1)] project_drawable [OF d(2)] project_drawable [OF d(3)]
          del: cast_int.simps)
  qed
qed

lemma degenerate_fin:
  assumes "fin_vertex (corner t (f_v1 f))" "fin_vertex (corner t (f_v2 f))"
    "fin_vertex (corner t (f_v3 f))"
  shows "degenerate t f =
     spec_degenerate (coords (corner t (f_v1 f))) (coords (corner t (f_v2 f)))
       (coords (corner t (f_v3 f)))"
proof -
  obtain a b c where cr: "spec_cross (coords (corner t (f_v1 f))) (coords (corner t (f_v2 f)))
      (coords (corner t (f_v3 f))) = (a, b, c)"
    by (cases "spec_cross (coords (corner t (f_v1 f))) (coords (corner t (f_v2 f)))
      (coords (corner t (f_v3 f)))")
  show ?thesis
    by (simp add: degenerate_def normal_of_fin [OF assms] cr spec_degenerate_def)
qed

lemma front_facing_fin:
  assumes "fin_vertex (corner t (f_v1 f))" "fin_vertex (corner t (f_v2 f))"
    "fin_vertex (corner t (f_v3 f))"
  shows "front_facing t f =
     (\<not> spec_degenerate (coords (corner t (f_v1 f))) (coords (corner t (f_v2 f)))
          (coords (corner t (f_v3 f)))
      \<and> 0 < snd (snd (spec_unit_normal (coords (corner t (f_v1 f)))
                (coords (corner t (f_v2 f))) (coords (corner t (f_v3 f))))))"
proof -
  obtain a b c where cr: "spec_cross (coords (corner t (f_v1 f))) (coords (corner t (f_v2 f)))
      (coords (corner t (f_v3 f))) = (a, b, c)"
    by (cases "spec_cross (coords (corner t (f_v1 f))) (coords (corner t (f_v2 f)))
      (coords (corner t (f_v3 f)))")
  show ?thesis
  proof (cases "spec_length (a, b, c) < 0.000001")
    case True
    then show ?thesis
      by (simp add: front_facing_def normal_of_fin [OF assms] cr spec_degenerate_def)
  next
    case False
    then have "spec_length (a, b, c) \<noteq> 0" by auto
    with False show ?thesis
      by (simp add: front_facing_def normal_of_fin [OF assms] cr spec_degenerate_def
          spec_unit_normal_def)
  qed
qed

lemma front_facing_not_degenerate: "front_facing t f \<Longrightarrow> \<not> degenerate t f"
  by (cases "normal_of t f") (simp add: front_facing_def degenerate_def)

lemma shade_face_closed:
  assumes d: "drawable (corner t (f_v1 f))" "drawable (corner t (f_v2 f))"
    "drawable (corner t (f_v3 f))"
  shows "shade_face f (corner t (f_v1 f)) (corner t (f_v2 f)) (corner t (f_v3 f)) vis =
     Inr (mark_face t f vis, if degenerate t f then [] else face_cmds t f)"
proof -
  from d have fin: "fin_vertex (corner t (f_v1 f))" "fin_vertex (corner t (f_v2 f))"
    "fin_vertex (corner t (f_v3 f))"
    by (simp_all add: drawable_def)
  show ?thesis
    by (simp add: shade_face_fin [OF d] degenerate_fin [OF fin] front_facing_fin [OF fin]
        mark_face_def face_cmds_def fill_of_def)
qed

lemma draw_face_closed:
  assumes "face_ok t f" and "\<forall>v\<in>set t. drawable v"
  shows "draw_face t f vis = Inr (mark_face t f vis, if degenerate t f then [] else face_cmds t f)"
proof -
  from assms have "drawable (corner t (f_v1 f))" "drawable (corner t (f_v2 f))"
    "drawable (corner t (f_v3 f))"
    by (simp_all add: face_ok_def corner_in_set)
  then show ?thesis
    by (simp only: draw_face_in_range [OF assms(1)] shade_face_closed)
qed

lemma draw_faces_closed:
  assumes "\<forall>e\<in>set es. face_ok t (face e)" and "\<forall>v\<in>set t. drawable v"
  shows "draw_faces t es vis =
     Inr (fold (mark_face t) (map face es) vis,
          concat (map (face_cmds t) (filter (\<lambda>f. \<not> degenerate t f) (map face es))))"
  using assms(1)
proof (induction es arbitrary: vis)
  case Nil
  show ?case by simp
next
  case (Cons e es)
  then have ok: "face_ok t (face e)" and rest: "\<forall>e\<in>set es. face_ok t (face e)" by simp_all
  show ?case
    by (simp add: draw_face_closed [OF ok assms(2)] Cons.IH [OF rest])
qed

lemma draw_dots_closed:
  assumes "\<forall>z\<in>set zs. drawable (fst z)"
  shows "draw_dots zs = Inr (dots_of zs)"
  using assms
proof (induction zs)
  case Nil
  show ?case by (simp add: dots_of_def)
next
  case (Cons z zs)
  obtain v b where z: "z = (v, b)" by (cases z)
  from Cons.prems have dv: "drawable v" and rest: "\<forall>z\<in>set zs. drawable (fst z)"
    by (simp_all add: z)
  from dv have "fin_vertex v" by (simp add: drawable_def)
  from fin_vertexD [OF this] obtain r where r: "v_z v = Fin r" by blast
  have ih: "draw_dots zs = Inr (dots_of zs)" by (rule Cons.IH [OF rest])
  obtain sx sy where sp: "screen_point v = (sx, sy)" by (cases "screen_point v")
  show ?case
    by (simp add: z ih r project_drawable [OF dv] dots_of_def dot_of_def sp not_le)
qed

lemma length_mark_face [simp]: "length (mark_face t f vis) = length vis"
  by (simp add: mark_face_def)

lemma length_fold_mark [simp]: "length (fold (mark_face t) fs vis) = length vis"
  by (induction fs arbitrary: vis) simp_all

lemma drawShadedModel_closed:
  assumes ok: "faces_ok (transformed st) (faces st)"
    and dr: "\<forall>v\<in>set (transformed st). drawable v"
    and srt: "std_sort_post (indexed st) (srt (indexed st))"
  shows "drawShadedModel srt st =
     Inr (concat (map (face_cmds (transformed st))
            (filter (\<lambda>f. \<not> degenerate (transformed st) f) (map face (srt (indexed st)))))
          @ dots_of (zip (transformed st)
               (fold (mark_face (transformed st)) (map face (srt (indexed st)))
                  (replicate (length (transformed st)) False))))"
proof -
  let ?t = "transformed st"
  have ix: "index_faces ?t (faces st) = Inr (indexed st)"
    by (simp add: index_faces_in_range [OF ok] indexed_def)
  have "\<forall>e\<in>set (indexed st). face_ok ?t (face e)"
    using ok by (simp add: indexed_def index_face_def faces_ok_def list_all_iff)
  then have oks: "\<forall>e\<in>set (srt (indexed st)). face_ok ?t (face e)"
    by (rule sorted_faces_ok [OF srt])
  have dz: "\<forall>z\<in>set (zip ?t vis). drawable (fst z)" for vis
    using dr by (auto dest: set_zip_leftD)
  show ?thesis
    by (simp add: drawShadedModel_def Let_def ix draw_faces_closed [OF oks dr]
        draw_dots_closed [OF dz])
qed

section \<open>Marks, fills and depth order\<close>

lemma bnd_Inr_right [simp]: "bnd m Inr = m"
  by (cases m) simp_all

lemma nth_set_True:
  assumes "i < length xs"
  shows "xs [j := True] ! i = (xs ! i \<or> i = j)"
proof (cases "j < length xs")
  case True
  then show ?thesis by (auto simp: nth_list_update)
next
  case False
  with assms have "i \<noteq> j" by simp
  with False show ?thesis by simp
qed

lemma mark_face_nth:
  assumes "face_ok t f" and "i < length vis"
  shows "mark_face t f vis ! i = (vis ! i \<or> (front_facing t f \<and> has_corner f i))"
proof -
  define a b c where "a = nat (f_v1 f - 1)" and "b = nat (f_v2 f - 1)" and "c = nat (f_v3 f - 1)"
  from assms(1) have r: "1 \<le> f_v1 f" "1 \<le> f_v2 f" "1 \<le> f_v3 f"
    by (simp_all add: face_ok_def in_range_def)
  have e: "(int i = f_v1 f - 1) = (i = a)" "(int i = f_v2 f - 1) = (i = b)"
    "(int i = f_v3 f - 1) = (i = c)"
    using r unfolding a_def b_def c_def by linarith+
  have upd: "vis [a := True, b := True, c := True] ! i = (vis ! i \<or> i = a \<or> i = b \<or> i = c)"
    using assms(2) by (simp add: nth_set_True)
  show ?thesis
    unfolding mark_face_def has_corner_def e
    using upd by (simp add: a_def b_def c_def)
qed

lemma fold_mark_nth:
  assumes "\<forall>f\<in>set fs. face_ok t f" and "i < length vis"
  shows "fold (mark_face t) fs vis ! i = (vis ! i \<or> marked t fs i)"
  using assms
proof (induction fs arbitrary: vis)
  case Nil
  show ?case by (simp add: marked_def)
next
  case (Cons f fs)
  then have ok: "face_ok t f" and rest: "\<forall>f\<in>set fs. face_ok t f" by simp_all
  have len: "i < length (mark_face t f vis)" using Cons.prems(2) by simp
  have "fold (mark_face t) (f # fs) vis ! i = (mark_face t f vis ! i \<or> marked t fs i)"
    using Cons.IH [OF rest len] by simp
  also have "\<dots> = (vis ! i \<or> marked t (f # fs) i)"
    by (auto simp: mark_face_nth [OF ok Cons.prems(2)] marked_def)
  finally show ?case .
qed

lemma face_index_face [simp]: "face (index_face t f) = f"
  by (simp add: index_face_def)

lemma map_face_indexed: "map face (indexed st) = faces st"
  by (simp add: indexed_def comp_def)

lemma sorted_faces_mset:
  assumes "std_sort_post (indexed st) ys"
  shows "mset (map face ys) = mset (faces st)"
proof -
  from assms have "mset ys = mset (indexed st)"
    by (simp add: std_sort_post_def)
  then have "mset (map face ys) = mset (map face (indexed st))"
    by (simp only: mset_map)
  then show ?thesis by (simp only: map_face_indexed)
qed

lemma sorted_faces_set:
  assumes "std_sort_post (indexed st) ys"
  shows "set (map face ys) = set (faces st)"
  using sorted_faces_mset [OF assms] by (rule mset_eq_setD)

lemma marked_cong: "set fs = set gs \<Longrightarrow> marked t fs i = marked t gs i"
  by (simp add: marked_def)

lemma zip_as_map:
  assumes "length ys = length xs"
  shows "zip xs ys = map (\<lambda>i. (xs ! i, ys ! i)) [0..<length xs]"
  using assms by (intro nth_equalityI) simp_all

lemma dots_of_zip:
  assumes "length vis = length t"
  shows "dots_of (zip t vis) =
     map (\<lambda>i. dot_of (t ! i)) (filter (\<lambda>i. vis ! i \<and> 0 < val (v_z (t ! i))) [0..<length t])"
  by (simp add: dots_of_def zip_as_map [OF assms] filter_map comp_def)

lemma no_dot_in_face_cmds: "filter is_dot (face_cmds t f) = []"
  by (simp add: face_cmds_def fill_of_def is_dot_def)

lemma no_dot_in_faces: "filter is_dot (concat (map (face_cmds t) fs)) = []"
  by (induction fs) (simp_all add: no_dot_in_face_cmds)






lemma draw_face_skips_degenerate:
  assumes "face_ok t f" and "degenerate t f"
  shows "draw_face t f vis = Inr (vis, [])"
proof -
  obtain nx ny nz len where n: "normal_of t f = (nx, ny, nz, len)" by (cases "normal_of t f")
  with assms(2) have "fless len (Fin 0.000001)" by (simp add: degenerate_def)
  then show ?thesis
    using n by (simp add: draw_face_in_range [OF assms(1)] shade_face_def normal_of_def)
qed

lemma draw_faces_skip_degenerate:
  assumes "\<forall>e\<in>set es. face_ok t (face e)"
  shows "draw_faces t es vis = draw_faces t (filter (\<lambda>e. \<not> degenerate t (face e)) es) vis"
  using assms
proof (induction es arbitrary: vis)
  case Nil
  show ?case by simp
next
  case (Cons e es)
  then have ok: "face_ok t (face e)" and rest: "\<forall>e\<in>set es. face_ok t (face e)" by simp_all
  show ?case
  proof (cases "degenerate t (face e)")
    case True
    then show ?thesis
      by (simp add: draw_face_skips_degenerate [OF ok True] Cons.IH [OF rest])
  next
    case False
    then show ?thesis
      by (simp add: Cons.IH [OF rest])
  qed
qed

section \<open>The two insertion sorts meet the promise of the library\<close>

lemma fless_asym: "fless a b \<Longrightarrow> \<not> fless b a"
  by (cases a; cases b) simp_all

lemma fless_trans: "fless a b \<Longrightarrow> fless b c \<Longrightarrow> fless a c"
  by (cases a; cases b; cases c) simp_all

lemma set_insert_face [simp]: "set (insert_face e xs) = insert e (set xs)"
  by (induction xs) auto

lemma mset_insert_face [simp]: "mset (insert_face e xs) = add_mset e (mset xs)"
  by (induction xs) simp_all

lemma sorted_insert_face:
  "sorted_wrt (\<lambda>a b. \<not> avgZ_less b a) xs \<Longrightarrow>
   sorted_wrt (\<lambda>a b. \<not> avgZ_less b a) (insert_face e xs)"
proof (induction xs)
  case Nil
  show ?case by simp
next
  case (Cons x xs)
  show ?case
  proof (cases "avgZ_less e x")
    case True
    have "\<not> avgZ_less z e" if "z \<in> set (x # xs)" for z
    proof
      assume ze: "avgZ_less z e"
      from ze True have zx: "avgZ_less z x"
        unfolding avgZ_less_def by (rule fless_trans)
      from that Cons.prems show False
      proof (cases "z = x")
        case True
        with zx show False unfolding avgZ_less_def using fless_asym by blast
      next
        case False
        with that Cons.prems have "\<not> avgZ_less z x" by simp
        with zx show False by simp
      qed
    qed
    with True Cons.prems show ?thesis by simp
  next
    case False
    with Cons show ?thesis by auto
  qed
qed

lemma fold_insert_face:
  "mset (fold insert_face xs acc) = mset xs + mset acc \<and>
   (sorted_wrt (\<lambda>a b. \<not> avgZ_less b a) acc \<longrightarrow>
      sorted_wrt (\<lambda>a b. \<not> avgZ_less b a) (fold insert_face xs acc))"
  by (induction xs arbitrary: acc) (simp_all add: sorted_insert_face)


lemma insertion_sort_post: "std_sort_post xs (insertion_sort xs)"
  using fold_insert_face [of xs "[]"] by (simp add: std_sort_post_def insertion_sort_def)


section \<open>The rasterizer on the box\<close>

lemma box_transformed:
  "transformed box =
     [\<lparr> v_id = 1, v_x = Fin (1/3), v_y = Fin (2/3), v_z = Fin (2/3) \<rparr>,
      \<lparr> v_id = 2, v_x = Fin (- 1/3), v_y = Fin (2/3), v_z = Fin (2/3) \<rparr>,
      \<lparr> v_id = 3, v_x = Fin (- 1/3), v_y = Fin (- 2/3), v_z = Fin (2/3) \<rparr>,
      \<lparr> v_id = 4, v_x = Fin (1/3), v_y = Fin (- 2/3), v_z = Fin (2/3) \<rparr>,
      \<lparr> v_id = 5, v_x = Fin (1/3), v_y = Fin (2/3), v_z = Fin (- 2/3) \<rparr>,
      \<lparr> v_id = 6, v_x = Fin (- 1/3), v_y = Fin (2/3), v_z = Fin (- 2/3) \<rparr>,
      \<lparr> v_id = 7, v_x = Fin (- 1/3), v_y = Fin (- 2/3), v_z = Fin (- 2/3) \<rparr>,
      \<lparr> v_id = 8, v_x = Fin (1/3), v_y = Fin (- 2/3), v_z = Fin (- 2/3) \<rparr>]"
  by (simp add: box_def box_mesh_def applyTransform_def centre_def of_count_def Let_def
      transform_vertex_def rotateX_def rotateY_def PI_F_def)

lemma box_faces:
  "faces box = [\<lparr> f_v1 = 1, f_v2 = 2, f_v3 = 3 \<rparr>,
                \<lparr> f_v1 = 1, f_v2 = 2, f_v3 = 1 \<rparr>,
                \<lparr> f_v1 = 1, f_v2 = 2, f_v3 = 5 \<rparr>,
                \<lparr> f_v1 = 5, f_v2 = 6, f_v3 = 7 \<rparr>,
                \<lparr> f_v1 = 1, f_v2 = 4, f_v3 = 3 \<rparr>]"
  by (simp add: box_def box_mesh_def applyTransform_def Let_def)

lemma box_indexed:
  "index_faces (transformed box) (faces box) =
     Inr [\<lparr> face = \<lparr> f_v1 = 1, f_v2 = 2, f_v3 = 3 \<rparr>, avgZ = Fin (2/3) \<rparr>,
          \<lparr> face = \<lparr> f_v1 = 1, f_v2 = 2, f_v3 = 1 \<rparr>, avgZ = Fin (2/3) \<rparr>,
          \<lparr> face = \<lparr> f_v1 = 1, f_v2 = 2, f_v3 = 5 \<rparr>, avgZ = Fin (2/9) \<rparr>,
          \<lparr> face = \<lparr> f_v1 = 5, f_v2 = 6, f_v3 = 7 \<rparr>, avgZ = Fin (- (2/3)) \<rparr>,
          \<lparr> face = \<lparr> f_v1 = 1, f_v2 = 4, f_v3 = 3 \<rparr>, avgZ = Fin (2/3) \<rparr>]"
  by (simp add: box_transformed box_faces vec_at_def Let_def)

lemma box_sorted:
  "insertion_sort
     [\<lparr> face = \<lparr> f_v1 = 1, f_v2 = 2, f_v3 = 3 \<rparr>, avgZ = Fin (2/3) \<rparr>,
          \<lparr> face = \<lparr> f_v1 = 1, f_v2 = 2, f_v3 = 1 \<rparr>, avgZ = Fin (2/3) \<rparr>,
          \<lparr> face = \<lparr> f_v1 = 1, f_v2 = 2, f_v3 = 5 \<rparr>, avgZ = Fin (2/9) \<rparr>,
          \<lparr> face = \<lparr> f_v1 = 5, f_v2 = 6, f_v3 = 7 \<rparr>, avgZ = Fin (- (2/3)) \<rparr>,
          \<lparr> face = \<lparr> f_v1 = 1, f_v2 = 4, f_v3 = 3 \<rparr>, avgZ = Fin (2/3) \<rparr>] =
     [\<lparr> face = \<lparr> f_v1 = 5, f_v2 = 6, f_v3 = 7 \<rparr>, avgZ = Fin (- (2/3)) \<rparr>,
      \<lparr> face = \<lparr> f_v1 = 1, f_v2 = 2, f_v3 = 5 \<rparr>, avgZ = Fin (2/9) \<rparr>,
      \<lparr> face = \<lparr> f_v1 = 1, f_v2 = 2, f_v3 = 3 \<rparr>, avgZ = Fin (2/3) \<rparr>,
      \<lparr> face = \<lparr> f_v1 = 1, f_v2 = 2, f_v3 = 1 \<rparr>, avgZ = Fin (2/3) \<rparr>,
      \<lparr> face = \<lparr> f_v1 = 1, f_v2 = 4, f_v3 = 3 \<rparr>, avgZ = Fin (2/3) \<rparr>]"
  by (simp add: insertion_sort_def avgZ_less_def)


lemma box_face_top:
  "draw_face (transformed box) \<lparr> f_v1 = 1, f_v2 = 2, f_v3 = 3 \<rparr> vis =
     Inr (vis [0 := True, 1 := True, 2 := True],
          [Polygon [(480, 140), (320, 140), (320, 460)] (0, 0, 255),
           MoveToEx (480, 140), LineTo (320, 140) (0, 0, 0), LineTo (320, 460) (0, 0, 0),
           LineTo (480, 140) (0, 0, 0)])"
  by (simp add: box_transformed draw_face_def vec_at_def shade_face_def face_normal_def Let_def
      real_sqrt_divide of_count_def truncation_def project_def WIDTH_def HEIGHT_def RGB_def
      black_def)


lemma box_face_twice:
  "draw_face (transformed box) \<lparr> f_v1 = 1, f_v2 = 2, f_v3 = 1 \<rparr> vis = Inr (vis, [])"
  by (simp add: box_transformed draw_face_def vec_at_def shade_face_def face_normal_def Let_def)

lemma box_face_side:
  "draw_face (transformed box) \<lparr> f_v1 = 1, f_v2 = 2, f_v3 = 5 \<rparr> vis =
     Inr (vis,
          [Polygon [(480, 140), (320, 140), (480, 140)] (0, 0, 95),
           MoveToEx (480, 140), LineTo (320, 140) (0, 0, 0), LineTo (480, 140) (0, 0, 0),
           LineTo (480, 140) (0, 0, 0)])"
  by (simp add: box_transformed draw_face_def vec_at_def shade_face_def face_normal_def Let_def
      real_sqrt_divide of_count_def truncation_def project_def WIDTH_def HEIGHT_def RGB_def
      black_def)

lemma box_face_bottom:
  "draw_face (transformed box) \<lparr> f_v1 = 5, f_v2 = 6, f_v3 = 7 \<rparr> vis =
     Inr (vis [4 := True, 5 := True, 6 := True],
          [Polygon [(480, 140), (320, 140), (320, 460)] (0, 0, 255),
           MoveToEx (480, 140), LineTo (320, 140) (0, 0, 0), LineTo (320, 460) (0, 0, 0),
           LineTo (480, 140) (0, 0, 0)])"
  by (simp add: box_transformed draw_face_def vec_at_def shade_face_def face_normal_def Let_def
      real_sqrt_divide of_count_def truncation_def project_def WIDTH_def HEIGHT_def RGB_def
      black_def)

lemma box_face_back:
  "draw_face (transformed box) \<lparr> f_v1 = 1, f_v2 = 4, f_v3 = 3 \<rparr> vis =
     Inr (vis,
          [Polygon [(480, 140), (480, 460), (320, 460)] (0, 0, 255),
           MoveToEx (480, 140), LineTo (480, 460) (0, 0, 0), LineTo (320, 460) (0, 0, 0),
           LineTo (480, 140) (0, 0, 0)])"
  by (simp add: box_transformed draw_face_def vec_at_def shade_face_def face_normal_def Let_def
      real_sqrt_divide of_count_def truncation_def project_def WIDTH_def HEIGHT_def RGB_def
      black_def)

lemmas box_face_draws =
  box_face_top box_face_twice box_face_side box_face_bottom box_face_back

lemma box_dots:
  "draw_dots (zip (transformed box) [True, True, True, False, True, True, True, False]) =
     Inr [Ellipse 477 137 483 143 (0, 0, 255), Ellipse 317 137 323 143 (0, 0, 255),
          Ellipse 317 457 323 463 (0, 0, 255)]"
  by (simp add: box_transformed project_def Let_def of_count_def truncation_def WIDTH_def
      HEIGHT_def blueDot_def RGB_def)

lemma box_drawn:
  "drawShadedModel insertion_sort box =
     Inr [Polygon [(480, 140), (320, 140), (320, 460)] (0, 0, 255),
          MoveToEx (480, 140), LineTo (320, 140) (0, 0, 0), LineTo (320, 460) (0, 0, 0),
          LineTo (480, 140) (0, 0, 0),
          Polygon [(480, 140), (320, 140), (480, 140)] (0, 0, 95),
          MoveToEx (480, 140), LineTo (320, 140) (0, 0, 0), LineTo (480, 140) (0, 0, 0),
          LineTo (480, 140) (0, 0, 0),
          Polygon [(480, 140), (320, 140), (320, 460)] (0, 0, 255),
          MoveToEx (480, 140), LineTo (320, 140) (0, 0, 0), LineTo (320, 460) (0, 0, 0),
          LineTo (480, 140) (0, 0, 0),
          Polygon [(480, 140), (480, 460), (320, 460)] (0, 0, 255),
          MoveToEx (480, 140), LineTo (480, 460) (0, 0, 0), LineTo (320, 460) (0, 0, 0),
          LineTo (480, 140) (0, 0, 0),
          Ellipse 477 137 483 143 (0, 0, 255), Ellipse 317 137 323 143 (0, 0, 255),
          Ellipse 317 457 323 463 (0, 0, 255)]"
proof -
  have len: "length (transformed box) = 8" by (simp add: box_transformed)
  have rep: "replicate 8 False = [False, False, False, False, False, False, False, False]"
    by (simp add: numeral_eq_Suc)
  show ?thesis
    by (simp add: drawShadedModel_def Let_def box_indexed box_sorted len rep box_face_draws
        box_dots)
qed


lemma box_faces_ok: "faces_ok (transformed box) (faces box)"
  by (simp add: box_transformed box_faces faces_ok_def face_ok_def in_range_def)

lemma box_drawable: "\<forall>v\<in>set (transformed box). drawable v"
  by (simp add: box_transformed drawable_def fin_vertex_def castable_def)

section \<open>The rasterizer on the kite\<close>

lemma kite_transformed:
  "transformed kite =
     [\<lparr> v_id = 1, v_x = Fin (1/3), v_y = Fin (2/3), v_z = Fin (2/3) \<rparr>,
      \<lparr> v_id = 2, v_x = Fin (- 1/3), v_y = Fin (- 2/3), v_z = Fin (- 2/3) \<rparr>,
      \<lparr> v_id = 3, v_x = Fin (2/3), v_y = Fin (- 2/3), v_z = Fin (1/3) \<rparr>,
      \<lparr> v_id = 4, v_x = Fin (- 2/3), v_y = Fin (2/3), v_z = Fin (- 1/3) \<rparr>]"
  by (simp add: kite_def kite_mesh_def applyTransform_def centre_def of_count_def Let_def
      transform_vertex_def rotateX_def rotateY_def PI_F_def)

lemma kite_faces: "faces kite = [\<lparr> f_v1 = 1, f_v2 = 2, f_v3 = 3 \<rparr>]"
  by (simp add: kite_def kite_mesh_def applyTransform_def Let_def)

lemma kite_intensity:
  "spec_intensity (coords (corner (transformed kite) 1)) (coords (corner (transformed kite) 2))
     (coords (corner (transformed kite) 3)) = 2 / 3"
  by (simp add: kite_transformed corner_def coords_def spec_intensity_def spec_unit_normal_def
      spec_cross_def spec_length_def real_sqrt_divide)

lemma blue_of_range:
  assumes "0 \<le> i" and "i \<le> 1"
  shows "0 \<le> blue_of i" and "blue_of i < 256"
proof -
  have a: "0 \<le> i * 160" using assms(1) by simp
  have b: "i * 160 \<le> 160" using assms(2) by simp
  have fa: "0 \<le> \<lfloor>i * 160\<rfloor>" using a by simp
  have fb: "\<lfloor>i * 160\<rfloor> \<le> 160" using floor_mono [OF b] by simp
  have c: "0 \<le> 95 + i * 160" using a by simp
  have e: "blue_of i = 95 + \<lfloor>i * 160\<rfloor>"
    using c by (simp add: blue_of_def truncation_def)
  show "0 \<le> blue_of i" using fa by (simp add: e)
  show "blue_of i < 256" using fb by (simp add: e)
qed

lemma spec_intensity_range:
  assumes "\<not> spec_degenerate p1 p2 p3"
  shows "0 \<le> spec_intensity p1 p2 p3" and "spec_intensity p1 p2 p3 \<le> 1"
proof -
  obtain a b c where cr: "spec_cross p1 p2 p3 = (a, b, c)" by (cases "spec_cross p1 p2 p3")
  from assms have nd: "\<not> spec_length (a, b, c) < 0.000001" by (simp add: spec_degenerate_def cr)
  have i: "spec_intensity p1 p2 p3 = \<bar>c / spec_length (a, b, c)\<bar>"
    by (simp add: spec_intensity_def spec_unit_normal_def cr)
  show "0 \<le> spec_intensity p1 p2 p3" by (simp add: i)
  show "spec_intensity p1 p2 p3 \<le> 1" unfolding i by (rule intensity_bounds(2) [OF nd])
qed

lemma box_sort_post: "std_sort_post (indexed box) (insertion_sort (indexed box))"
  by (rule insertion_sort_post)

lemma box_indexed_list:
  "indexed box =
     [\<lparr> face = \<lparr> f_v1 = 1, f_v2 = 2, f_v3 = 3 \<rparr>, avgZ = Fin (2/3) \<rparr>,
      \<lparr> face = \<lparr> f_v1 = 1, f_v2 = 2, f_v3 = 1 \<rparr>, avgZ = Fin (2/3) \<rparr>,
      \<lparr> face = \<lparr> f_v1 = 1, f_v2 = 2, f_v3 = 5 \<rparr>, avgZ = Fin (2/9) \<rparr>,
      \<lparr> face = \<lparr> f_v1 = 5, f_v2 = 6, f_v3 = 7 \<rparr>, avgZ = Fin (- (2/3)) \<rparr>,
      \<lparr> face = \<lparr> f_v1 = 1, f_v2 = 4, f_v3 = 3 \<rparr>, avgZ = Fin (2/3) \<rparr>]"
proof -
  have "Inr (indexed box) = index_faces (transformed box) (faces box)"
    by (simp add: index_faces_in_range [OF box_faces_ok] indexed_def)
  then show ?thesis by (simp add: box_indexed)
qed

section \<open>Shading\<close>

text \<open>
  Claim C2, as stated, fails: the blue channel is not \<open>0x5F + intensity * (0xFF - 0x5F)\<close>
  but that value converted to \<open>int\<close>, which drops its fraction. On the kite the only
  face has intensity 2/3; the formula gives 201 and two thirds, and the fill that is
  drawn has blue 201.
\<close>

theorem blue_channel_is_truncated:
  "drawShadedModel insertion_sort kite =
     Inr [Polygon [(480, 140), (320, 460), (560, 460)] (0, 0, 201),
          MoveToEx (480, 140), LineTo (320, 460) (0, 0, 0), LineTo (560, 460) (0, 0, 0),
          LineTo (480, 140) (0, 0, 0),
          Ellipse 477 137 483 143 (0, 0, 255), Ellipse 557 457 563 463 (0, 0, 255)]
   \<and> spec_intensity (coords (corner (transformed kite) 1))
         (coords (corner (transformed kite) 2)) (coords (corner (transformed kite) 3)) = 2 / 3
   \<and> of_int 201 \<noteq> (0x5F + 2 / 3 * (0xFF - 0x5F) :: real)"
proof -
  have len: "length (transformed kite) = 4" by (simp add: kite_transformed)
  have rep: "replicate 4 False = [False, False, False, False]"
    by (simp add: numeral_eq_Suc)
  have ix: "index_faces (transformed kite) (faces kite) =
      Inr [\<lparr> face = \<lparr> f_v1 = 1, f_v2 = 2, f_v3 = 3 \<rparr>, avgZ = Fin (1/9) \<rparr>]"
    by (simp add: kite_transformed kite_faces vec_at_def Let_def)
  have fc: "draw_face (transformed kite) \<lparr> f_v1 = 1, f_v2 = 2, f_v3 = 3 \<rparr> vis =
      Inr (vis [0 := True, 1 := True, 2 := True],
           [Polygon [(480, 140), (320, 460), (560, 460)] (0, 0, 201),
            MoveToEx (480, 140), LineTo (320, 460) (0, 0, 0), LineTo (560, 460) (0, 0, 0),
            LineTo (480, 140) (0, 0, 0)])" for vis
    by (simp add: kite_transformed draw_face_def vec_at_def shade_face_def face_normal_def Let_def
      real_sqrt_divide of_count_def truncation_def project_def WIDTH_def HEIGHT_def RGB_def
      black_def)
  have dots: "draw_dots (zip (transformed kite) [True, True, True, False]) =
      Inr [Ellipse 477 137 483 143 (0, 0, 255), Ellipse 557 457 563 463 (0, 0, 255)]"
    by (simp add: kite_transformed project_def Let_def of_count_def truncation_def WIDTH_def
      HEIGHT_def blueDot_def RGB_def)
  have "drawShadedModel insertion_sort kite =
     Inr [Polygon [(480, 140), (320, 460), (560, 460)] (0, 0, 201),
          MoveToEx (480, 140), LineTo (320, 460) (0, 0, 0), LineTo (560, 460) (0, 0, 0),
          LineTo (480, 140) (0, 0, 0),
          Ellipse 477 137 483 143 (0, 0, 255), Ellipse 557 457 563 463 (0, 0, 255)]"
    by (simp add: drawShadedModel_def Let_def ix insertion_sort_def len rep fc dots)
  moreover have "of_int 201 \<noteq> (0x5F + 2 / 3 * (0xFF - 0x5F) :: real)" by simp
  ultimately show ?thesis using kite_intensity by simp
qed

text \<open>
  Claim C2, amended. For every non-degenerate triangle of drawable vertices, the
  shading intensity is the absolute value of the Z component of the unit normal
  \<open>normalize ((v2 - v1) \<times> (v3 - v1))\<close>, and the fill that is drawn has red 0, green 0 and
  blue equal to \<open>0x5F + intensity * (0xFF - 0x5F)\<close> truncated toward zero. For the face
  over (0,0,0), (1,0,0), (0,1,0) the unit normal is (0,0,1), the intensity is 1 and
  the blue channel is \<open>0xFF\<close>.
\<close>

theorem fill_colour_of_a_face:
  assumes "drawable v1" and "drawable v2" and "drawable v3"
    and "\<not> spec_degenerate (coords v1) (coords v2) (coords v3)"
  shows "(\<exists>vis' outline.
           shade_face f v1 v2 v3 vis =
             Inr (vis',
                  Polygon [screen_point v1, screen_point v2, screen_point v3]
                    (0, 0, truncation (0x5F + spec_intensity (coords v1) (coords v2) (coords v3)
                                                * (0xFF - 0x5F)))
                  # outline))
       \<and> spec_intensity (coords v1) (coords v2) (coords v3) =
           \<bar>snd (snd (spec_unit_normal (coords v1) (coords v2) (coords v3)))\<bar>
       \<and> spec_unit_normal (coords unit_v1) (coords unit_v2) (coords unit_v3) = (0, 0, 1)
       \<and> spec_intensity (coords unit_v1) (coords unit_v2) (coords unit_v3) = 1
       \<and> (\<exists>vis' outline.
             shade_face f unit_v1 unit_v2 unit_v3 vis =
               Inr (vis', Polygon [(400, 300), (640, 300), (400, 60)] (0, 0, 0xFF) # outline))"
proof -
  let ?i = "spec_intensity (coords v1) (coords v2) (coords v3)"
  note r = spec_intensity_range [OF assms(4)]
  note b = blue_of_range [OF r]
  have rgb: "RGB 0 0 (blue_of ?i) = (0, 0, truncation (0x5F + ?i * (0xFF - 0x5F)))"
    using b by (simp add: RGB_def blue_of_def)
  have g: "\<exists>vis' outline.
           shade_face f v1 v2 v3 vis =
             Inr (vis',
                  Polygon [screen_point v1, screen_point v2, screen_point v3]
                    (0, 0, truncation (0x5F + ?i * (0xFF - 0x5F))) # outline)"
    using assms(4) by (simp add: shade_face_fin [OF assms(1-3)] rgb)
  have n: "spec_unit_normal (coords unit_v1) (coords unit_v2) (coords unit_v3) = (0, 0, 1)"
    by (simp add: unit_v1_def unit_v2_def unit_v3_def coords_def spec_unit_normal_def
        spec_cross_def spec_length_def)
  have i1: "spec_intensity (coords unit_v1) (coords unit_v2) (coords unit_v3) = 1"
    by (simp add: spec_intensity_def n)
  have e: "\<exists>vis' outline.
             shade_face f unit_v1 unit_v2 unit_v3 vis =
               Inr (vis', Polygon [(400, 300), (640, 300), (400, 60)] (0, 0, 0xFF) # outline)"
    by (simp add: unit_v1_def unit_v2_def unit_v3_def shade_face_def face_normal_def Let_def
      of_count_def truncation_def project_def WIDTH_def HEIGHT_def RGB_def)
  from g n i1 e show ?thesis by (simp add: spec_intensity_def)
qed

theorem fill_colour_of_a_face_witness:
  "drawable unit_v1 \<and> drawable unit_v2 \<and> drawable unit_v3
   \<and> \<not> spec_degenerate (coords unit_v1) (coords unit_v2) (coords unit_v3)
   \<and> (\<exists>vis' outline.
         shade_face \<lparr> f_v1 = 1, f_v2 = 2, f_v3 = 3 \<rparr> unit_v1 unit_v2 unit_v3
             [False, False, False] =
           Inr (vis', Polygon [(400, 300), (640, 300), (400, 60)] (0, 0, 0xFF) # outline))"
proof -
  have d: "drawable unit_v1" "drawable unit_v2" "drawable unit_v3"
    by (simp_all add: unit_v1_def unit_v2_def unit_v3_def drawable_def fin_vertex_def castable_def)
  have n: "\<not> spec_degenerate (coords unit_v1) (coords unit_v2) (coords unit_v3)"
    by (simp add: unit_v1_def unit_v2_def unit_v3_def coords_def spec_degenerate_def
        spec_cross_def spec_length_def)
  from fill_colour_of_a_face [OF d n, of "\<lparr> f_v1 = 1, f_v2 = 2, f_v3 = 3 \<rparr>"
      "[False, False, False]"]
  have "\<exists>vis' outline.
         shade_face \<lparr> f_v1 = 1, f_v2 = 2, f_v3 = 3 \<rparr> unit_v1 unit_v2 unit_v3
             [False, False, False] =
           Inr (vis', Polygon [(400, 300), (640, 300), (400, 60)] (0, 0, 0xFF) # outline)"
    by (simp only: simp_thms)
  with d n show ?thesis by (simp only: simp_thms)
qed

section \<open>Visibility marks and vertex dots\<close>

text \<open>
  Claim C3. A vertex is marked visible if and only if it is a corner of at least one
  non-degenerate face whose unit normal has a strictly positive Z component, and a
  filled blue circle is drawn at the projected position of a vertex if and only if
  its mark is set and its transformed Z is strictly positive. The faces are in range
  and the vertices drawable; the face loop draws no circle, and the circles follow
  the faces' commands in the order of the vertices.
\<close>

theorem visible_marks_and_dots:
  assumes ok: "faces_ok (transformed st) (faces st)"
    and dr: "\<forall>v\<in>set (transformed st). drawable v"
    and srt: "std_sort_post (indexed st) (srt (indexed st))"
  shows "\<exists>vis cs dots.
      draw_faces (transformed st) (srt (indexed st))
        (replicate (length (transformed st)) False) = Inr (vis, cs)
    \<and> length vis = length (transformed st)
    \<and> (\<forall>i<length (transformed st). vis ! i = marked (transformed st) (faces st) i)
    \<and> filter is_dot cs = []
    \<and> dots = map (\<lambda>i. dot_of (transformed st ! i))
               (filter (\<lambda>i. vis ! i \<and> 0 < val (v_z (transformed st ! i)))
                  [0..<length (transformed st)])
    \<and> drawShadedModel srt st = Inr (cs @ dots)"
proof -
  let ?t = "transformed st"
  let ?fs = "map face (srt (indexed st))"
  let ?vis = "fold (mark_face ?t) ?fs (replicate (length ?t) False)"
  let ?cs = "concat (map (face_cmds ?t) (filter (\<lambda>f. \<not> degenerate ?t f) ?fs))"
  have "\<forall>e\<in>set (indexed st). face_ok ?t (face e)"
    using ok by (simp add: indexed_def faces_ok_def list_all_iff)
  then have oks: "\<forall>e\<in>set (srt (indexed st)). face_ok ?t (face e)"
    by (rule sorted_faces_ok [OF srt])
  then have okf: "\<forall>f\<in>set ?fs. face_ok ?t f" by simp
  have a: "draw_faces ?t (srt (indexed st)) (replicate (length ?t) False) = Inr (?vis, ?cs)"
    by (rule draw_faces_closed [OF oks dr])
  have b: "length ?vis = length ?t" by simp
  have c: "\<forall>i<length ?t. ?vis ! i = marked ?t (faces st) i"
  proof (intro allI impI)
    fix i assume "i < length ?t"
    then have "?vis ! i = marked ?t ?fs i"
      by (simp add: fold_mark_nth [OF okf])
    also have "\<dots> = marked ?t (faces st) i"
      by (rule marked_cong [OF sorted_faces_set [OF srt]])
    finally show "?vis ! i = marked ?t (faces st) i" .
  qed
  have d: "filter is_dot ?cs = []" by (rule no_dot_in_faces)
  have e: "drawShadedModel srt st = Inr (?cs @ dots_of (zip ?t ?vis))"
    by (rule drawShadedModel_closed [where st = st and srt = srt, OF ok dr srt])
  from a b c d e show ?thesis
    by (simp only: dots_of_zip [OF b]) blast
qed

theorem visible_marks_and_dots_witness:
  "faces_ok (transformed box) (faces box) \<and> list_all drawable (transformed box)
   \<and> std_sort_post (indexed box) (insertion_sort (indexed box))
   \<and> (\<exists>vis cs dots.
      draw_faces (transformed box) (insertion_sort (indexed box))
        (replicate (length (transformed box)) False) = Inr (vis, cs)
    \<and> length vis = length (transformed box)
    \<and> (\<forall>i<length (transformed box). vis ! i = marked (transformed box) (faces box) i)
    \<and> filter is_dot cs = []
    \<and> dots = map (\<lambda>i. dot_of (transformed box ! i))
               (filter (\<lambda>i. vis ! i \<and> 0 < val (v_z (transformed box ! i)))
                  [0..<length (transformed box)])
    \<and> drawShadedModel insertion_sort box = Inr (cs @ dots))"
proof -
  note th = visible_marks_and_dots [where st = box and srt = insertion_sort,
      OF box_faces_ok box_drawable box_sort_post]
  from box_drawable have "list_all drawable (transformed box)" by (simp only: list_all_iff)
  with box_faces_ok box_sort_post th show ?thesis by (simp only: simp_thms)
qed

section \<open>Depth order\<close>




section \<open>Degenerate faces\<close>

text \<open>
  Claim C5. A face whose cross product has length below \<open>1e-6\<close> is skipped entirely:
  the loop body returns for it with no command, the marks unchanged and no failure,
  so that the whole run draws what it would draw with these faces removed from the
  sorted list.
\<close>

theorem degenerate_faces_are_skipped:
  assumes srt: "std_sort_post (indexed st) (srt (indexed st))"
  shows "(\<forall>f vis. face_ok (transformed st) f \<and> degenerate (transformed st) f \<longrightarrow>
            draw_face (transformed st) f vis = Inr (vis, []))
       \<and> drawShadedModel srt st =
           drawShadedModel
             (\<lambda>xs. filter (\<lambda>e. \<not> degenerate (transformed st) (face e)) (srt xs)) st"
proof (intro conjI allI impI)
  fix f vis assume "face_ok (transformed st) f \<and> degenerate (transformed st) f"
  then show "draw_face (transformed st) f vis = Inr (vis, [])"
    by (simp add: draw_face_skips_degenerate)
next
  let ?t = "transformed st"
  show "drawShadedModel srt st =
      drawShadedModel (\<lambda>xs. filter (\<lambda>e. \<not> degenerate ?t (face e)) (srt xs)) st"
  proof (cases "faces_ok ?t (faces st)")
    case True
    have ix: "index_faces ?t (faces st) = Inr (indexed st)"
      by (simp add: index_faces_in_range [OF True] indexed_def)
    have "\<forall>e\<in>set (indexed st). face_ok ?t (face e)"
      using True by (simp add: indexed_def faces_ok_def list_all_iff)
    then have oks: "\<forall>e\<in>set (srt (indexed st)). face_ok ?t (face e)"
      by (rule sorted_faces_ok [OF srt])
    show ?thesis
      by (simp add: drawShadedModel_def Let_def ix draw_faces_skip_degenerate [OF oks, symmetric])
  next
    case False
    then show ?thesis
      by (simp add: drawShadedModel_def Let_def index_faces_out)
  qed
qed

theorem degenerate_faces_are_skipped_witness:
  "std_sort_post (indexed box) (insertion_sort (indexed box))
   \<and> face_ok (transformed box) \<lparr> f_v1 = 1, f_v2 = 2, f_v3 = 1 \<rparr>
   \<and> degenerate (transformed box) \<lparr> f_v1 = 1, f_v2 = 2, f_v3 = 1 \<rparr>
   \<and> draw_face (transformed box) \<lparr> f_v1 = 1, f_v2 = 2, f_v3 = 1 \<rparr> [True, False] =
       Inr ([True, False], [])
   \<and> drawShadedModel insertion_sort box =
       drawShadedModel
         (\<lambda>xs. filter (\<lambda>e. \<not> degenerate (transformed box) (face e)) (insertion_sort xs)) box"
proof -
  note th = degenerate_faces_are_skipped [where st = box and srt = insertion_sort,
      OF box_sort_post]
  have ok: "face_ok (transformed box) \<lparr> f_v1 = 1, f_v2 = 2, f_v3 = 1 \<rparr>"
    by (simp add: box_transformed face_ok_def in_range_def)
  have dg: "degenerate (transformed box) \<lparr> f_v1 = 1, f_v2 = 2, f_v3 = 1 \<rparr>"
    by (simp add: box_transformed degenerate_def normal_of_def corner_def face_normal_def Let_def)
  from th ok dg
  have "draw_face (transformed box) \<lparr> f_v1 = 1, f_v2 = 2, f_v3 = 1 \<rparr> [True, False] =
       Inr ([True, False], [])" by blast
  with th ok dg box_sort_post show ?thesis by (simp only: simp_thms)
qed

section \<open>The loaders\<close>

lemma getline_line:
  assumes "good strm" and "content strm = l @ newline # rest" and "newline \<notin> set l"
  shows "getline strm cur = (strm \<lparr> content := rest \<rparr>, l)"
proof -
  have t: "takeWhile (\<lambda>c. c \<noteq> newline) (l @ newline # rest) = l"
    using assms(3) by (auto simp: takeWhile_tail)
  have d: "dropWhile (\<lambda>c. c \<noteq> newline) (l @ newline # rest) = newline # rest"
    using assms(3) by (auto simp: dropWhile_append3)
  show ?thesis
    using assms(1) by (simp add: getline_def assms(2) t d Let_def)
qed

lemma good_content [simp]: "good (strm \<lparr> content := r \<rparr>) = good strm"
  by (simp add: good_def)

lemma read_records_lines:
  assumes "good strm" and "content strm = text_of_lines ls @ rest"
    and "\<forall>l\<in>set ls. newline \<notin> set l"
    and "ls = [] \<or> last ls \<noteq> []"
    and "int (length (record_lines ls)) = max 0 (n - i)"
  shows "read_records extract n i strm cur acc =
           Some (acc @ map (\<lambda>l. extract (replace_commas l)) (record_lines ls),
                 strm \<lparr> content := rest \<rparr>)"
  using assms
proof (induction ls arbitrary: strm cur acc i)
  case Nil
  then have "\<not> i < n" by (simp add: record_lines_def)
  moreover from Nil have "strm \<lparr> content := rest \<rparr> = strm" by (simp add: text_of_lines_def)
  ultimately show ?case
    by (subst read_records.simps) (simp add: record_lines_def)
next
  case (Cons l ls)
  from Cons.prems(4) have "record_lines (l # ls) \<noteq> []"
    by (cases "ls = []") (auto simp: record_lines_def filter_empty_conv)
  with Cons.prems(5) have lt: "i < n" by (cases "i < n") auto
  from Cons.prems(2) have c: "content strm = l @ newline # (text_of_lines ls @ rest)"
    by (simp add: text_of_lines_def)
  from Cons.prems(3) have nl: "newline \<notin> set l" and nls: "\<forall>l\<in>set ls. newline \<notin> set l"
    by simp_all
  have g: "getline strm cur = (strm \<lparr> content := text_of_lines ls @ rest \<rparr>, l)"
    by (rule getline_line [OF Cons.prems(1) c nl])
  let ?strm' = "strm \<lparr> content := text_of_lines ls @ rest \<rparr>"
  have gf: "good ?strm'" using Cons.prems(1) by simp
  have cf: "content ?strm' = text_of_lines ls @ rest" by simp
  have fin: "?strm' \<lparr> content := rest \<rparr> = strm \<lparr> content := rest \<rparr>" by simp
  show ?case
  proof (cases "l = []")
    case True
    with Cons.prems(4) have ne: "ls \<noteq> []" by auto
    with Cons.prems(4) have last: "ls = [] \<or> last ls \<noteq> []" by simp
    from Cons.prems(5) True have cnt: "int (length (record_lines ls)) = max 0 (n - i)"
      by (simp add: record_lines_def)
    have "read_records extract n i strm cur acc = read_records extract n i ?strm' [] acc"
      using lt True by (subst read_records.simps) (simp add: g)
    also have "\<dots> = Some (acc @ map (\<lambda>l. extract (replace_commas l)) (record_lines ls),
                 ?strm' \<lparr> content := rest \<rparr>)"
      by (rule Cons.IH [OF gf cf nls last cnt])
    finally show ?thesis using True by (simp add: record_lines_def)
  next
    case False
    from Cons.prems(4) have last: "ls = [] \<or> last ls \<noteq> []" by (cases "ls = []") simp_all
    from Cons.prems(5) False lt have cnt: "int (length (record_lines ls)) = max 0 (n - (i + 1))"
      by (simp add: record_lines_def)
    have "read_records extract n i strm cur acc =
        read_records extract n (i + 1) ?strm' (replace_commas l)
          (acc @ [extract (replace_commas l)])"
      using lt False by (subst read_records.simps) (simp add: g)
    also have "\<dots> = Some ((acc @ [extract (replace_commas l)])
                   @ map (\<lambda>l. extract (replace_commas l)) (record_lines ls),
                 ?strm' \<lparr> content := rest \<rparr>)"
      by (rule Cons.IH [OF gf cf nls last cnt])
    finally show ?thesis using False by (simp add: record_lines_def)
  qed
qed

lemma read_records_spins:
  assumes "i < n" and "\<not> good strm"
  shows "read_records extract n i strm [] acc = None"
proof (rule ccontr)
  assume "read_records extract n i strm [] acc \<noteq> None"
  then obtain y where y: "read_records extract n i strm [] acc = Some y" by auto
  have "\<not> (i < n \<and> \<not> good strm \<and> ([]::string) = [])"
  proof (rule read_records.raw_induct
      [where P = "\<lambda>ex n i s l a y. \<not> (i < n \<and> \<not> good s \<and> l = [])", OF _ y])
    fix rr :: "(string \<Rightarrow> 'a) \<Rightarrow> int \<Rightarrow> int \<Rightarrow> ifstream \<Rightarrow> string \<Rightarrow> 'a list
        \<Rightarrow> ('a list \<times> ifstream) option"
    fix ex n i s l a r
    assume ih: "\<And>ex n i s l a r. rr ex n i s l a = Some r \<Longrightarrow> \<not> (i < n \<and> \<not> good s \<and> l = [])"
    assume body: "(if i < n
      then case getline s l of
           (file', line') \<Rightarrow>
             if line' = [] then rr ex n i file' line' a
             else rr ex n (i + 1) file' (replace_commas line')
                   (a @ [ex (replace_commas line')])
      else Some (a, s)) = Some r"
    show "\<not> (i < n \<and> \<not> good s \<and> l = [])"
    proof
      assume st: "i < n \<and> \<not> good s \<and> l = []"
      then have g: "getline s [] = (s \<lparr> failbit := True \<rparr>, [])" by (simp add: getline_def)
      from body st have "rr ex n i (s \<lparr> failbit := True \<rparr>) [] a = Some r" by (simp add: g)
      from ih [OF this] st show False by (simp add: good_def)
    qed
  qed
  with assms show False by simp
qed

lemma loadFaces_spins_after_last_line: "loadFaces read_face (open_file (''1 2 3'' @ [newline])) 2 = None"
proof -
  have g1: "getline (open_file (''1 2 3'' @ [newline])) [] = (open_file [], ''1 2 3'')"
    by (simp add: getline_def open_file_def good_def newline_def)
  have g2: "getline (open_file []) ''1 2 3'' =
      (\<lparr> content = [], eofbit = True, failbit = True \<rparr>, [])"
    by (simp add: getline_def open_file_def good_def)
  have ng: "\<not> good \<lparr> content = [], eofbit = True, failbit = True \<rparr>" by (simp add: good_def)
  have "loadFaces read_face (open_file (''1 2 3'' @ [newline])) 2 =
      read_records read_face 2 1 (open_file []) (replace_commas ''1 2 3'')
        ([] @ [read_face (replace_commas ''1 2 3'')])"
    unfolding loadFaces_def by (subst read_records.simps) (use g1 in simp)
  also have "\<dots> = read_records read_face 2 1 \<lparr> content = [], eofbit = True, failbit = True \<rparr> []
        ([] @ [read_face (replace_commas ''1 2 3'')])"
    by (subst read_records.simps) (use g2 in \<open>simp add: replace_commas_def\<close>)
  also have "\<dots> = None" by (rule read_records_spins [OF _ ng]) simp
  finally show ?thesis .
qed

lemmas extract_defs =
  read_face_def read_vertex_def extract_int_def extract_float_def skip_sign_def isspace_def
  isdigit_def digits_value_def header_counts_def

text \<open>
  Claim C7, as stated, fails: the loaders have no \<open>LoadError\<close> and never look at the
  state of the stream. When the file ends before the declared count is reached and
  its last line has no newline, the failing \<open>getline\<close> leaves the last line in the
  buffer and the loop extracts it again: the loader returns the declared number of
  records, the missing ones being copies of the last. When the last line ends in a
  newline, the buffer is empty from then on and the loop never ends.
\<close>

theorem loaders_on_a_truncated_file:
  "loadFaces read_face (open_file ''1 2 3'') 2 =
     Some ([\<lparr> f_v1 = 1, f_v2 = 2, f_v3 = 3 \<rparr>, \<lparr> f_v1 = 1, f_v2 = 2, f_v3 = 3 \<rparr>],
           \<lparr> content = [], eofbit = True, failbit = True \<rparr>)
   \<and> loadFaces read_face (open_file (''1 2 3'' @ [newline])) 2 = None"
proof -
  have "loadFaces read_face (open_file ''1 2 3'') 2 =
     Some ([\<lparr> f_v1 = 1, f_v2 = 2, f_v3 = 3 \<rparr>, \<lparr> f_v1 = 1, f_v2 = 2, f_v3 = 3 \<rparr>],
           \<lparr> content = [], eofbit = True, failbit = True \<rparr>)"
    by (simp add: loadFaces_def open_file_def read_records.simps getline_def good_def newline_def
        replace_commas_def extract_defs Let_def)
  with loadFaces_spins_after_last_line show ?thesis by simp
qed

text \<open>
  Claim C7, amended. When the stream is good and what is left of the file begins
  with lines, each ended by a newline, of which exactly the declared count are
  non-empty and the last is non-empty (none when the count is zero or negative),
  \<open>loadVertices\<close> and \<open>loadFaces\<close> terminate and return exactly that many records,
  one for each non-empty line in order: empty lines are skipped and do not count,
  and the stream is left just after the last record's line. The loaders have no
  \<open>LoadError\<close>; what they do on a file that ends too early is not part of this
  statement.
\<close>

theorem loaders_read_the_declared_records:
  assumes "good strm" and "content strm = text_of_lines ls @ rest"
    and "\<forall>l\<in>set ls. newline \<notin> set l"
    and "ls = [] \<or> last ls \<noteq> []"
    and "int (length (filter (\<lambda>l. l \<noteq> []) ls)) = max 0 cnt"
  shows "loadVertices ev strm cnt =
           Some (map (\<lambda>l. ev (replace_commas l)) (filter (\<lambda>l. l \<noteq> []) ls),
                 strm \<lparr> content := rest \<rparr>)
       \<and> loadFaces ef strm cnt =
           Some (map (\<lambda>l. ef (replace_commas l)) (filter (\<lambda>l. l \<noteq> []) ls),
                 strm \<lparr> content := rest \<rparr>)
       \<and> int (length (map (\<lambda>l. ev (replace_commas l)) (filter (\<lambda>l. l \<noteq> []) ls))) = max 0 cnt
       \<and> int (length (map (\<lambda>l. ef (replace_commas l)) (filter (\<lambda>l. l \<noteq> []) ls))) = max 0 cnt"
proof -
  from assms(5) have c: "int (length (record_lines ls)) = max 0 (cnt - 0)"
    by (simp add: record_lines_def)
  have v: "loadVertices ev strm cnt =
           Some ([] @ map (\<lambda>l. ev (replace_commas l)) (record_lines ls), strm \<lparr> content := rest \<rparr>)"
    unfolding loadVertices_def by (rule read_records_lines [OF assms(1-4) c])
  have f: "loadFaces ef strm cnt =
           Some ([] @ map (\<lambda>l. ef (replace_commas l)) (record_lines ls), strm \<lparr> content := rest \<rparr>)"
    unfolding loadFaces_def by (rule read_records_lines [OF assms(1-4) c])
  from v f assms(5) show ?thesis by (simp add: record_lines_def)
qed

theorem loaders_read_the_declared_records_witness:
  "good (open_file (''1 0 0 0'' @ [newline] @ [newline] @ ''2,1.5,-2,0'' @ [newline] @ ''tail''))
   \<and> list_all (\<lambda>l. newline \<notin> set l) [''1 0 0 0'', [], ''2,1.5,-2,0'']
   \<and> loadVertices read_vertex
        (open_file (''1 0 0 0'' @ [newline] @ [newline] @ ''2,1.5,-2,0'' @ [newline] @ ''tail'')) 2 =
       Some ([\<lparr> v_id = 1, v_x = Fin 0, v_y = Fin 0, v_z = Fin 0 \<rparr>,
              \<lparr> v_id = 2, v_x = Fin 1.5, v_y = Fin (- 2), v_z = Fin 0 \<rparr>],
             open_file ''tail'')
   \<and> loadFaces read_face
        (open_file (''1 0 0 0'' @ [newline] @ [newline] @ ''2,1.5,-2,0'' @ [newline] @ ''tail'')) 2 =
       Some ([\<lparr> f_v1 = 1, f_v2 = 0, f_v3 = 0 \<rparr>, \<lparr> f_v1 = 2, f_v2 = 1, f_v3 = 0 \<rparr>],
             open_file ''tail'')"
proof -
  let ?s = "open_file (''1 0 0 0'' @ [newline] @ [newline] @ ''2,1.5,-2,0'' @ [newline] @ ''tail'')"
  let ?ls = "[''1 0 0 0'', [], ''2,1.5,-2,0'']"
  have h1: "good ?s" by (simp add: good_def open_file_def)
  have h2: "content ?s = text_of_lines ?ls @ ''tail''"
    by (simp add: open_file_def text_of_lines_def)
  have h3: "\<forall>l\<in>set ?ls. newline \<notin> set l" by (simp add: newline_def)
  have h4: "?ls = [] \<or> last ?ls \<noteq> []" by simp
  have h5: "int (length (filter (\<lambda>l. l \<noteq> []) ?ls)) = max 0 2" by simp
  note th = loaders_read_the_declared_records [OF h1 h2 h3 h4 h5, of read_vertex read_face]
  have rl: "filter (\<lambda>l. l \<noteq> []) ?ls = [''1 0 0 0'', ''2,1.5,-2,0'']" by simp
  have st: "?s \<lparr> content := ''tail'' \<rparr> = open_file ''tail''" by (simp add: open_file_def)
  have v1: "read_vertex (replace_commas ''1 0 0 0'') = \<lparr> v_id = 1, v_x = Fin 0, v_y = Fin 0, v_z = Fin 0 \<rparr>"
    by (simp add: replace_commas_def extract_defs Let_def)
  have v2: "read_vertex (replace_commas ''2,1.5,-2,0'') = \<lparr> v_id = 2, v_x = Fin 1.5, v_y = Fin (- 2), v_z = Fin 0 \<rparr>"
    by (simp add: replace_commas_def extract_defs Let_def)
  have f1: "read_face (replace_commas ''1 0 0 0'') = \<lparr> f_v1 = 1, f_v2 = 0, f_v3 = 0 \<rparr>"
    by (simp add: replace_commas_def extract_defs Let_def)
  have f2: "read_face (replace_commas ''2,1.5,-2,0'') = \<lparr> f_v1 = 2, f_v2 = 1, f_v3 = 0 \<rparr>"
    by (simp add: replace_commas_def extract_defs Let_def)
  from th have "loadVertices read_vertex ?s 2 =
       Some ([\<lparr> v_id = 1, v_x = Fin 0, v_y = Fin 0, v_z = Fin 0 \<rparr>,
              \<lparr> v_id = 2, v_x = Fin 1.5, v_y = Fin (- 2), v_z = Fin 0 \<rparr>],
             open_file ''tail'')"
    and "loadFaces read_face ?s 2 =
       Some ([\<lparr> f_v1 = 1, f_v2 = 0, f_v3 = 0 \<rparr>, \<lparr> f_v1 = 2, f_v2 = 1, f_v3 = 0 \<rparr>],
             open_file ''tail'')"
    by (simp_all only: rl st list.map v1 v2 f1 f2)
  with h1 h3 show ?thesis by (simp only: list_all_iff simp_thms)
qed

section \<open>Face indices\<close>

text \<open>
  Claim C6, as stated, fails: \<open>loadFaces\<close> stores the indices it reads and checks
  nothing, and there is no \<open>InvalidFaceIndexError\<close>. A file of three vertices whose
  only face names vertex 7 is loaded as it is, and the rasterizer then reads the
  transformed vector out of bounds.
\<close>

theorem out_of_range_face_is_loaded_and_read:
  "load_model (open_file three_vertices_bad_face) = Some (applyTransform three_vertices_mesh)
   \<and> faces (applyTransform three_vertices_mesh) = [\<lparr> f_v1 = 1, f_v2 = 2, f_v3 = 7 \<rparr>]
   \<and> length (transformed (applyTransform three_vertices_mesh)) = 3
   \<and> drawShadedModel insertion_sort (applyTransform three_vertices_mesh) = Inl OutOfBounds"
proof -
  have h: "getline (open_file three_vertices_bad_face) [] =
      (open_file (''1 0 0 0'' @ [newline] @ ''2 1 0 0'' @ [newline]
         @ ''3 0 1 0'' @ [newline] @ ''1 2 7'' @ [newline]), ''3 1'')"
    by (simp add: getline_def open_file_def good_def three_vertices_bad_face_def newline_def)
  have c: "header_counts ''3 1'' = (3, 1)"
    by (simp add: replace_commas_def extract_defs Let_def)
  have v: "loadVertices read_vertex
      (open_file (''1 0 0 0'' @ [newline] @ ''2 1 0 0'' @ [newline]
         @ ''3 0 1 0'' @ [newline] @ ''1 2 7'' @ [newline])) 3 =
      Some (vertices three_vertices_mesh, open_file (''1 2 7'' @ [newline]))"
    by (simp add: loadVertices_def open_file_def read_records.simps getline_def good_def
        newline_def replace_commas_def extract_defs Let_def three_vertices_mesh_def)
  have f: "loadFaces read_face (open_file (''1 2 7'' @ [newline])) 1 =
      Some (faces three_vertices_mesh, open_file [])"
    by (simp add: loadFaces_def open_file_def read_records.simps getline_def good_def
        newline_def replace_commas_def extract_defs Let_def three_vertices_mesh_def)
  have m: "\<lparr> vertices = vertices three_vertices_mesh, faces = faces three_vertices_mesh,
             transformed = [], angleX = Fin 0, angleY = Fin 0 \<rparr> = three_vertices_mesh"
    by (simp add: three_vertices_mesh_def)
  have a: "load_model (open_file three_vertices_bad_face) = Some (applyTransform three_vertices_mesh)"
    using h c v f m by (simp add: load_model_def)
  have b: "faces (applyTransform three_vertices_mesh) = [\<lparr> f_v1 = 1, f_v2 = 2, f_v3 = 7 \<rparr>]"
    by (simp add: applyTransform_def Let_def three_vertices_mesh_def)
  have l: "length (transformed (applyTransform three_vertices_mesh)) = 3"
    by (simp add: applyTransform_def Let_def three_vertices_mesh_def)
  have "\<not> faces_ok (transformed (applyTransform three_vertices_mesh))
           (faces (applyTransform three_vertices_mesh))"
    by (simp add: b l faces_ok_def face_ok_def in_range_def)
  then have d: "drawShadedModel insertion_sort (applyTransform three_vertices_mesh) = Inl OutOfBounds"
    by (simp add: drawShadedModel_def Let_def index_faces_out)
  from a b l d show ?thesis by simp
qed

text \<open>
  Claim C6, amended. The loader does not validate face indices. The positional
  lookups of the rasterizer (index minus 1 into the transformed vector) stay in
  bounds exactly when every index of every face lies within 1 and the number of
  transformed vertices: then the rasterizer makes no out-of-bounds access, and
  otherwise it makes one.
\<close>

theorem lookups_in_bounds_iff_faces_in_range:
  assumes "std_sort_post (indexed st) (srt (indexed st))"
  shows "(drawShadedModel srt st = Inl OutOfBounds) = (\<not> faces_ok (transformed st) (faces st))"
proof (cases "faces_ok (transformed st) (faces st)")
  case True
  have ix: "index_faces (transformed st) (faces st) = Inr (indexed st)"
    by (simp add: index_faces_in_range [OF True] indexed_def)
  have "\<forall>e\<in>set (indexed st). face_ok (transformed st) (face e)"
    using True by (simp add: indexed_def index_face_def faces_ok_def list_all_iff)
  then have ok: "\<forall>e\<in>set (srt (indexed st)). face_ok (transformed st) (face e)"
    by (rule sorted_faces_ok [OF assms])
  have "drawShadedModel srt st \<noteq> Inl OutOfBounds"
    unfolding drawShadedModel_def Let_def ix bnd_Inr
    by (intro bnd_not_oob draw_faces_not_oob [OF ok]) (simp add: split_def bnd_not_oob draw_dots_not_oob)
  with True show ?thesis by simp
next
  case False
  then show ?thesis
    by (simp add: drawShadedModel_def Let_def index_faces_out)
qed

theorem lookups_in_bounds_iff_faces_in_range_witness:
  "std_sort_post (indexed box) (insertion_sort (indexed box))
   \<and> faces_ok (transformed box) (faces box)
   \<and> drawShadedModel insertion_sort box \<noteq> Inl OutOfBounds"
proof -
  from lookups_in_bounds_iff_faces_in_range [where st = box and srt = insertion_sort,
      OF box_sort_post] box_faces_ok
  have "drawShadedModel insertion_sort box \<noteq> Inl OutOfBounds" by (simp only: simp_thms)
  with box_sort_post box_faces_ok show ?thesis by (simp only: simp_thms)
qed

section \<open>The vertex id\<close>

lemma strip_fields [simp]:
  "v_x (strip v) = v_x v" "v_y (strip v) = v_y v" "v_z (strip v) = v_z v"
  by (simp_all add: strip_def)

lemma sum_coords_strip: "sum_coords (map strip vs) acc = sum_coords vs acc"
proof (induction vs arbitrary: acc)
  case Nil
  show ?case by simp
next
  case (Cons v vs)
  obtain a b c where acc: "acc = (a, b, c)" by (cases acc)
  show ?case by (simp add: acc Cons.IH)
qed

lemma centre_strip: "centre (map strip vs) = centre vs"
  by (simp add: centre_def sum_coords_strip)

lemma max_dist_strip: "max_dist c (map strip vs) m = max_dist c vs m"
proof (induction vs arbitrary: m)
  case Nil
  show ?case by simp
next
  case (Cons v vs)
  obtain cx cy cz where c: "c = (cx, cy, cz)" by (cases c)
  show ?case by (simp add: c Let_def Cons.IH [unfolded c])
qed

lemma v_id_rotateX [simp]: "v_id (rotateX v a) = v_id v"
  by (simp add: rotateX_def Let_def)

lemma v_id_rotateY [simp]: "v_id (rotateY v a) = v_id v"
  by (simp add: rotateY_def Let_def)

lemma rotateX_strip: "rotateX (strip v) a = strip (rotateX v a)"
  by (simp add: rotateX_def Let_def strip_def)

lemma rotateY_strip: "rotateY (strip v) a = strip (rotateY v a)"
  by (simp add: rotateY_def Let_def strip_def)

lemma transform_vertex_strip:
  "transform_vertex c m ax ay (strip v) = strip (transform_vertex c m ax ay v)"
proof -
  obtain cx cy cz where c: "c = (cx, cy, cz)" by (cases c)
  have "\<lparr> v_id = v_id (strip v), v_x = fdiv (fsub (v_x v) cx) m,
          v_y = fdiv (fsub (v_y v) cy) m, v_z = fdiv (fsub (v_z v) cz) m \<rparr> =
        strip \<lparr> v_id = v_id v, v_x = fdiv (fsub (v_x v) cx) m,
          v_y = fdiv (fsub (v_y v) cy) m, v_z = fdiv (fsub (v_z v) cz) m \<rparr>"
    by (simp add: strip_def)
  then show ?thesis
    by (simp add: transform_vertex_def c Let_def rotateX_strip rotateY_strip)
qed

lemma v_id_transform_vertex [simp]: "v_id (transform_vertex c m ax ay v) = v_id v"
  by (cases c) (simp add: transform_vertex_def Let_def)

lemma applyTransform_strip:
  "map strip (transformed (applyTransform st)) =
     map (transform_vertex (centre (map strip (vertices st)))
            (max_dist (centre (map strip (vertices st))) (map strip (vertices st)) (Fin 0))
            (angleX st) (angleY st))
       (map strip (vertices st))"
  by (simp add: applyTransform_def Let_def centre_strip max_dist_strip transform_vertex_strip
      comp_def)

lemma applyTransform_same_geometry:
  assumes "same_geometry st st'"
  shows "map strip (transformed (applyTransform st)) = map strip (transformed (applyTransform st'))"
  using assms by (simp only: applyTransform_strip same_geometry_def)

lemma applyTransform_faces [simp]: "faces (applyTransform st) = faces st"
  by (simp add: applyTransform_def Let_def)

lemma vec_at_strip:
  "vec_at (map strip t) i = (case vec_at t i of Inl e \<Rightarrow> Inl e | Inr v \<Rightarrow> Inr (strip v))"
  by (auto simp: vec_at_def nat_less_iff)

lemma index_faces_strip: "index_faces (map strip t) fs = index_faces t fs"
proof (induction fs)
  case Nil
  show ?case by simp
next
  case (Cons f fs)
  show ?case
    by (simp add: vec_at_strip Cons.IH Let_def bnd_def split: sum.splits)
qed

lemma project_strip: "project (strip v) = project v"
  by (simp add: project_def)

lemma shade_face_strip:
  "shade_face f (strip a) (strip b) (strip c) vis = shade_face f a b c vis"
  by (simp add: shade_face_def face_normal_def Let_def project_strip)

lemma draw_face_strip: "draw_face (map strip t) f vis = draw_face t f vis"
  by (simp add: draw_face_def vec_at_strip shade_face_strip bnd_def split: sum.splits)

lemma draw_faces_strip: "draw_faces (map strip t) es vis = draw_faces t es vis"
  by (induction es arbitrary: vis) (simp_all add: draw_face_strip)

lemma draw_dots_strip: "draw_dots (zip (map strip t) vis) = draw_dots (zip t vis)"
proof (induction t arbitrary: vis)
  case Nil
  show ?case by simp
next
  case (Cons v t)
  show ?case
    by (cases vis) (simp_all add: Cons.IH project_strip)
qed

lemma drawShadedModel_strip:
  "drawShadedModel srt (st \<lparr> transformed := map strip (transformed st) \<rparr>) =
   drawShadedModel srt st"
  by (simp add: drawShadedModel_def Let_def index_faces_strip draw_faces_strip draw_dots_strip)

lemma drawShadedModel_reads:
  assumes "transformed a = transformed b" and "faces a = faces b"
  shows "drawShadedModel srt a = drawShadedModel srt b"
  by (simp add: drawShadedModel_def assms)

lemma drawShadedModel_same_shape:
  assumes "map strip (transformed a) = map strip (transformed b)" and "faces a = faces b"
  shows "drawShadedModel srt a = drawShadedModel srt b"
proof -
  have "drawShadedModel srt a = drawShadedModel srt (a \<lparr> transformed := map strip (transformed a) \<rparr>)"
    by (simp only: drawShadedModel_strip)
  also have "\<dots> = drawShadedModel srt (b \<lparr> transformed := map strip (transformed b) \<rparr>)"
    by (rule drawShadedModel_reads) (simp_all add: assms)
  also have "\<dots> = drawShadedModel srt b"
    by (simp only: drawShadedModel_strip)
  finally show ?thesis .
qed

text \<open>
  Claim C10. The id of a vertex has no influence on the output. \<open>rotateX\<close>,
  \<open>rotateY\<close> and \<open>applyTransform\<close> carry the id through unchanged and compute the
  coordinates without it, and the rasterizer resolves the corners of a face by
  position. For two meshes that differ only in the ids of their vertices, the
  transformed coordinates are the same, and so is the whole result of the
  rasterizer, commands or failure.
\<close>

theorem ids_do_not_reach_the_output:
  assumes "same_geometry st st'"
  shows "map strip (transformed (applyTransform st)) = map strip (transformed (applyTransform st'))
       \<and> drawShadedModel srt (applyTransform st) = drawShadedModel srt (applyTransform st')
       \<and> map v_id (transformed (applyTransform st)) = map v_id (vertices st)
       \<and> v_id (rotateX v a) = v_id v \<and> v_id (rotateY v a) = v_id v
       \<and> rotateX (strip v) a = strip (rotateX v a)
       \<and> rotateY (strip v) a = strip (rotateY v a)"
proof -
  note e = applyTransform_same_geometry [OF assms]
  from assms have f: "faces (applyTransform st) = faces (applyTransform st')"
    by (simp add: same_geometry_def)
  have d: "drawShadedModel srt (applyTransform st) = drawShadedModel srt (applyTransform st')"
    by (rule drawShadedModel_same_shape [OF e f])
  have i: "map v_id (transformed (applyTransform st)) = map v_id (vertices st)"
    by (simp add: applyTransform_def Let_def comp_def)
  from e d i show ?thesis
    by (simp add: rotateX_strip rotateY_strip)
qed

theorem ids_do_not_reach_the_output_witness:
  "same_geometry box_mesh box_mesh_renumbered
   \<and> map v_id (vertices box_mesh_renumbered) = [99, 98, 97, 96, 95, 94, 93, 92]
   \<and> map strip (transformed (applyTransform box_mesh)) =
       map strip (transformed (applyTransform box_mesh_renumbered))
   \<and> drawShadedModel insertion_sort (applyTransform box_mesh) =
       drawShadedModel insertion_sort (applyTransform box_mesh_renumbered)"
proof -
  have s: "same_geometry box_mesh box_mesh_renumbered"
    by (simp add: same_geometry_def box_mesh_renumbered_def box_mesh_def strip_def)
  have i: "map v_id (vertices box_mesh_renumbered) = [99, 98, 97, 96, 95, 94, 93, 92]"
    by (simp add: box_mesh_renumbered_def box_mesh_def)
  from ids_do_not_reach_the_output [OF s, of insertion_sort] s i show ?thesis
    by (simp only: simp_thms)
qed

end
